theory Spec2Isabelle
  imports Main
begin

section \<open>Data model of \<^verbatim>\<open>src/webrtc.ts\<close>\<close>

text \<open>
  A \<^verbatim>\<open>URL\<close> object is kept symbolic: \<open>Href s\<close> is the document location and
  \<open>Resolved r b\<close> stands for \<^verbatim>\<open>new URL(r, b)\<close>. The URL parser belongs to the browser,
  not to this repository, so no claim depends on what the resolved string looks like.
\<close>

datatype url = Href string | Resolved string url

datatype error = Error string

text \<open>
  \<^verbatim>\<open>RTCIceCandidate\<close>: \<^verbatim>\<open>candidate\<close> is a string (the empty string is falsy),
  \<^verbatim>\<open>sdpMid\<close> and \<^verbatim>\<open>usernameFragment\<close> are \<^verbatim>\<open>string | null\<close>.
\<close>

record RTCIceCandidate =
  candidate :: string
  sdpMid :: "string option"
  usernameFragment :: "string option"

record RTCIceServer =
  urls :: "string list"
  username :: "string option"
  credential :: "string option"
  credentialType :: "string option"

text \<open>One call of \<^verbatim>\<open>fetch(url, {method, headers: {"Content-Type": ...}, body})\<close>.\<close>

record request =
  target :: url
  httpMethod :: string
  contentType :: string
  body :: string

text \<open>
  The parts of a \<^verbatim>\<open>Response\<close> that the code reads: \<^verbatim>\<open>response.ok\<close>,
  \<^verbatim>\<open>headers.get('link')\<close>, \<^verbatim>\<open>headers.get("Location")\<close> and \<^verbatim>\<open>await response.text()\<close>.
  Header values are byte strings, as \<open>char\<close> is.
\<close>

record response =
  ok :: bool
  link :: "string option"
  location :: "string option"
  responseText :: string

datatype kind = Audio | Video

datatype MediaStreamTrack = Track (kind: kind) (trackId: string)

type_synonym MediaStream = "MediaStreamTrack list"

text \<open>
  The fields of class \<^verbatim>\<open>WebRtcClient\<close>. The peer connection \<^verbatim>\<open>client\<close> is an external
  object; the record keeps what the repository's code reads or writes on it:
  \<open>iceServers\<close> is \<^verbatim>\<open>client.getConfiguration().iceServers || []\<close>, replaced by
  \<^verbatim>\<open>client.setConfiguration\<close>; \<open>localDescription\<close> and \<open>remoteDescription\<close> are what
  \<^verbatim>\<open>setLocalDescription\<close> and \<^verbatim>\<open>setRemoteDescription\<close> store; \<open>transceivers\<close> and
  \<open>senders\<close> record \<^verbatim>\<open>addTransceiver\<close> and \<^verbatim>\<open>addTrack\<close>.
  Two traces record the effects on the outside world, in the order the calls are made:
  \<open>fetched\<close> the calls of \<^verbatim>\<open>fetch\<close>, \<open>dispatched\<close> the \<^verbatim>\<open>responseerror\<close> events
  given to \<^verbatim>\<open>dispatchEvent\<close> (each with its \<^verbatim>\<open>detail\<close>).
\<close>

record WebRtcClient =
  cachedCandidates :: "RTCIceCandidate list"
  endpointUrl :: url
  sessionUrl :: "url option"
  iceServers :: "RTCIceServer list"
  localDescription :: "string option"
  remoteDescription :: "string option"
  transceivers :: "(kind \<times> string) list"
  senders :: "MediaStreamTrack list"
  fetched :: "request list"
  dispatched :: "response list"

record WebRtcClientConfig =
  url :: "string option"
  configIceServers :: "RTCIceServer list option"

text \<open>
  The constructor (lines 14-31); \<open>href\<close> is \<^verbatim>\<open>document.location.href\<close>. A missing
  \<^verbatim>\<open>iceServers\<close> leaves the peer connection with no configured server.
\<close>

definition WebRtcClient_new :: "WebRtcClientConfig \<Rightarrow> string \<Rightarrow> error + WebRtcClient" where
  "WebRtcClient_new config href =
     (case url config of
        None \<Rightarrow> Inl (Error ''Must specify endpoint url in config'')
      | Some u \<Rightarrow>
          if u = [] then Inl (Error ''Must specify endpoint url in config'')
          else Inr \<lparr> cachedCandidates = [],
                     endpointUrl = Resolved u (Href href),
                     sessionUrl = None,
                     iceServers = (case configIceServers config of None \<Rightarrow> [] | Some l \<Rightarrow> l),
                     localDescription = None,
                     remoteDescription = None,
                     transceivers = [],
                     senders = [],
                     fetched = [],
                     dispatched = [] \<rparr>)"

section \<open>Relaying candidates\<close>

text \<open>JavaScript's \<^verbatim>\<open>"..." + v\<close> for \<^verbatim>\<open>v: string | null\<close>: \<^verbatim>\<open>null\<close> prints as \<^verbatim>\<open>null\<close>.\<close>

definition js_string :: "string option \<Rightarrow> string" where
  "js_string v = (case v of None \<Rightarrow> ''null'' | Some s \<Rightarrow> s)"

definition crlf :: string where
  "crlf = [CHR 0x0D, CHR 0x0A]"

text \<open>\<^verbatim>\<open>Array.prototype.join\<close> on an array of strings.\<close>

fun join :: "string \<Rightarrow> string list \<Rightarrow> string" where
  "join sep [] = []"
| "join sep [x] = x"
| "join sep (x # y # ys) = x @ sep @ join sep (y # ys)"

text \<open>The argument of \<^verbatim>\<open>fetch\<close> in \<^verbatim>\<open>sendCandidate\<close> (lines 109-119).\<close>

definition trickle_request :: "url \<Rightarrow> RTCIceCandidate \<Rightarrow> request" where
  "trickle_request u c =
     \<lparr> target = u,
       httpMethod = ''PATCH'',
       contentType = ''application/trickle-ice-sdpfrag'',
       body = join crlf
         [''m=audio 9 RTP/AVP 0'',
          ''a=ice-ufrag:'' @ js_string (usernameFragment c),
          ''a=mid:'' @ js_string (sdpMid c),
          ''a='' @ candidate c] \<rparr>"

text \<open>
  \<^verbatim>\<open>sendCandidate\<close> (lines 88-120), up to its call of \<^verbatim>\<open>fetch\<close>; nothing follows the
  \<^verbatim>\<open>await\<close>. The flag \<open>isCached\<close> only selects the console message.
\<close>

definition sendCandidate :: "RTCIceCandidate \<Rightarrow> bool \<Rightarrow> WebRtcClient \<Rightarrow> error + WebRtcClient" where
  "sendCandidate c isCached this =
     (case sessionUrl this of
        None \<Rightarrow> Inl (Error ''Session url not set when expected'')
      | Some u \<Rightarrow> Inr (this\<lparr> fetched := fetched this @ [trickle_request u c] \<rparr>))"

text \<open>
  \<^verbatim>\<open>handleIceCandidateFromClient\<close> (lines 33-46). The event carries
  \<^verbatim>\<open>event.candidate: RTCIceCandidate | null\<close>.
\<close>

definition handleIceCandidateFromClient ::
  "RTCIceCandidate option \<Rightarrow> WebRtcClient \<Rightarrow> error + WebRtcClient" where
  "handleIceCandidateFromClient event this =
     (case event of
        None \<Rightarrow> Inr this
      | Some c \<Rightarrow>
          if candidate c = [] then Inr this
          else if sessionUrl this = None
            then Inr (this\<lparr> cachedCandidates := cachedCandidates this @ [c] \<rparr>)
          else sendCandidate c False this)"

section \<open>Relay servers from the \<^verbatim>\<open>Link\<close> header\<close>

text \<open>\<^verbatim>\<open>String.prototype.split\<close> with a one-character separator: \<^verbatim>\<open>"".split(",")\<close> is \<^verbatim>\<open>[""]\<close>.\<close>

fun split_on :: "char \<Rightarrow> string \<Rightarrow> string list" where
  "split_on sep [] = [[]]"
| "split_on sep (x # xs) =
     (if x = sep then [] # split_on sep xs
      else (case split_on sep xs of
              [] \<Rightarrow> [[x]]
            | p # ps \<Rightarrow> (x # p) # ps))"

text \<open>
  \<^verbatim>\<open>String.prototype.trim\<close> removes white space and line terminators at both ends; among
  the byte values these are TAB, LF, VT, FF, CR, SPACE and NBSP.
\<close>

definition js_white :: "char \<Rightarrow> bool" where
  "js_white ch = (ch \<in> {CHR 0x09, CHR 0x0A, CHR 0x0B, CHR 0x0C, CHR 0x0D, CHR 0x20, CHR 0xA0})"

definition trim :: "string \<Rightarrow> string" where
  "trim s = rev (dropWhile js_white (rev (dropWhile js_white s)))"

text \<open>
  \<^verbatim>\<open>s.match(/<(.+)>/)\<close>, returning group 1. The match starts at the leftmost \<^verbatim>\<open><\<close> that
  works; \<^verbatim>\<open>.+\<close> is greedy and does not cross a line terminator, so the group runs to the
  last \<^verbatim>\<open>>\<close> of the line and must not be empty.
\<close>

definition line_terminator :: "char \<Rightarrow> bool" where
  "line_terminator ch = (ch = CHR 0x0A \<or> ch = CHR 0x0D)"

definition upto_last_gt :: "string \<Rightarrow> string option" where
  "upto_last_gt run =
     (case dropWhile (\<lambda>ch. ch \<noteq> CHR ''>'') (rev run) of
        [] \<Rightarrow> None
      | _ # r \<Rightarrow> if r = [] then None else Some (rev r))"

fun match_url :: "string \<Rightarrow> string option" where
  "match_url [] = None"
| "match_url (x # xs) =
     (if x = CHR ''<''
      then (case upto_last_gt (takeWhile (\<lambda>ch. \<not> line_terminator ch) xs) of
              Some g \<Rightarrow> Some g
            | None \<Rightarrow> match_url xs)
      else match_url xs)"

text \<open>
  \<^verbatim>\<open>f.match(/([^=]+)="([^"]+)"/)\<close>, returning groups 1 and 2. At a start position the
  first group is the whole run of characters up to the next \<^verbatim>\<open>=\<close> (a shorter one is not
  followed by \<^verbatim>\<open>=\<close>), the second the whole run up to the next double quote; when that fails
  the match is tried one character later.
\<close>

definition pair_at :: "string \<Rightarrow> (string \<times> string) option" where
  "pair_at s =
     (let k = takeWhile (\<lambda>ch. ch \<noteq> CHR ''='') s in
      if k = [] then None
      else (case dropWhile (\<lambda>ch. ch \<noteq> CHR ''='') s of
              _ # q # r \<Rightarrow>
                if q = CHR 0x22
                then (let v = takeWhile (\<lambda>ch. ch \<noteq> CHR 0x22) r in
                      if v = [] \<or> dropWhile (\<lambda>ch. ch \<noteq> CHR 0x22) r = [] then None
                      else Some (k, v))
                else None
            | _ \<Rightarrow> None))"

fun match_pair :: "string \<Rightarrow> (string \<times> string) option" where
  "match_pair [] = None"
| "match_pair (x # xs) =
     (case pair_at (x # xs) of
        Some p \<Rightarrow> Some p
      | None \<Rightarrow> match_pair xs)"

text \<open>The \<^verbatim>\<open>switch\<close> of lines 153-163 for one segment \<open>f\<close> of an entry.\<close>

definition set_field :: "string \<Rightarrow> RTCIceServer \<Rightarrow> RTCIceServer" where
  "set_field f server =
     (case match_pair f of
        None \<Rightarrow> server
      | Some (k, v) \<Rightarrow>
          if k = ''username'' then server\<lparr> username := Some v \<rparr>
          else if k = ''credential'' then server\<lparr> credential := Some v \<rparr>
          else if k = ''credential-type'' then server\<lparr> credentialType := Some v \<rparr>
          else server)"

text \<open>The body of the loop over \<^verbatim>\<open>links\<close> (lines 145-168): the servers one entry pushes.\<close>

definition link_servers :: "string \<Rightarrow> RTCIceServer list" where
  "link_servers entry =
     (let split = map trim (split_on CHR '';'' entry) in
      if ''rel=\"ice-server\"'' \<in> set split
      then (case match_url (hd split) of
              None \<Rightarrow> []
            | Some u \<Rightarrow>
                [foldl (\<lambda>server f. set_field f server)
                   \<lparr> urls = [u], username = None, credential = None, credentialType = None \<rparr>
                   split])
      else [])"

definition parse_link :: "string \<Rightarrow> RTCIceServer list" where
  "parse_link linkHeader = concat (map link_servers (split_on CHR '','' linkHeader))"

text \<open>
  \<^verbatim>\<open>receiveIceServers\<close> (lines 137-182). It has no \<^verbatim>\<open>await\<close>, so the call runs to its
  end before the caller goes on. \<^verbatim>\<open>setConfiguration\<close> is taken to accept the list; the
  browser's own validation of the server URLs is outside the repository.
\<close>

definition receiveIceServers :: "response \<Rightarrow> WebRtcClient \<Rightarrow> WebRtcClient" where
  "receiveIceServers headers this =
     (case link headers of
        None \<Rightarrow> this
      | Some linkHeader \<Rightarrow>
          if linkHeader = [] then this
          else (let servers = parse_link linkHeader in
                if length servers > 0
                then (if length (iceServers this) = 0
                      then this\<lparr> iceServers := servers \<rparr>
                      else this)
                else this))"

section \<open>Negotiation\<close>



text \<open>\<^verbatim>\<open>onResponseError\<close> (lines 184-189): the event is dispatched with the response as detail.\<close>

definition onResponseError :: "response \<Rightarrow> WebRtcClient \<Rightarrow> WebRtcClient" where
  "onResponseError r this = this\<lparr> dispatched := dispatched this @ [r] \<rparr>"

text \<open>
  \<^verbatim>\<open>sendOffer\<close> is an \<^verbatim>\<open>async\<close> method: it runs until an \<^verbatim>\<open>await\<close>, and other handlers
  (the \<^verbatim>\<open>icecandidate\<close> listener, another call of \<^verbatim>\<open>sendOffer\<close>) run before it is resumed.
  Where one call of the method stands is a \<open>phase\<close>:
  \<^item> \<open>AwaitingResponse\<close>: at \<^verbatim>\<open>await fetch\<close> (line 55);
  \<^item> \<open>ReadingBody r\<close>: at \<^verbatim>\<open>await response.text()\<close> (line 74);
  \<^item> \<open>ApplyingAnswer sdp\<close>: at \<^verbatim>\<open>await client.setRemoteDescription\<close> (line 77);
  \<^item> \<open>Flushing i arr\<close>: \<^verbatim>\<open>sendOffer\<close> has returned (its promise is resolved) and
    \<^verbatim>\<open>sendCachedCandidates\<close>, which it called without \<^verbatim>\<open>await\<close>, is at the \<^verbatim>\<open>await\<close> of
    line 124, having sent the candidates of \<open>arr\<close> at the indices below \<open>i\<close>;
  \<^item> \<open>Negotiated\<close>: \<^verbatim>\<open>sendOffer\<close> has returned and \<^verbatim>\<open>sendCachedCandidates\<close> has emptied
    the queue;
  \<^item> \<open>FlushThrown e\<close>: \<^verbatim>\<open>sendOffer\<close> has returned and \<^verbatim>\<open>sendCachedCandidates\<close> has ended by
    throwing \<open>e\<close>, before line 126;
  \<^item> \<open>Stopped\<close>: \<^verbatim>\<open>sendOffer\<close> returned at line 65;
  \<^item> \<open>Thrown e\<close>: \<^verbatim>\<open>sendOffer\<close> ended by throwing \<open>e\<close> (its promise is rejected).

  The loop of line 123 iterates over the array that is in \<^verbatim>\<open>this.cachedCandidates\<close> when
  the loop starts; \<open>arr\<close> is that array. Nothing is pushed to it while the loop runs,
  since line 41 pushes only while \<^verbatim>\<open>sessionUrl\<close> is unset and the loop starts after line
  72; line 126 of another call puts a new array in the field and leaves \<open>arr\<close> as it is.
\<close>

datatype phase =
    AwaitingResponse
  | ReadingBody response
  | ApplyingAnswer string
  | Flushing nat "RTCIceCandidate list"
  | Negotiated
  | FlushThrown error
  | Stopped
  | Thrown error

text \<open>\<open>pending p\<close>: a call in phase \<open>p\<close> is waiting for a promise.\<close>

fun pending :: "phase \<Rightarrow> bool" where
  "pending AwaitingResponse = True"
| "pending (ReadingBody r) = True"
| "pending (ApplyingAnswer sdp) = True"
| "pending (Flushing i arr) = True"
| "pending _ = False"

text \<open>
  Lines 49-61, once \<^verbatim>\<open>createOffer\<close> has produced the offer \<open>sdp\<close> and
  \<^verbatim>\<open>setLocalDescription\<close> has stored it: the POST is issued.
\<close>

definition sendOffer_request :: "string \<Rightarrow> WebRtcClient \<Rightarrow> WebRtcClient" where
  "sendOffer_request sdp this =
     this\<lparr> localDescription := Some sdp,
           fetched := fetched this @
             [\<lparr> target = endpointUrl this,
                httpMethod = ''POST'',
                contentType = ''application/sdp'',
                body = sdp \<rparr>] \<rparr>"

text \<open>Lines 63-72, run when the POST has been answered by \<open>r\<close>.\<close>

definition sendOffer_response :: "response \<Rightarrow> WebRtcClient \<Rightarrow> phase \<times> WebRtcClient" where
  "sendOffer_response r this =
     (if \<not> ok r then (Stopped, onResponseError r this)
      else (let this' = receiveIceServers r this in
            case location r of
              None \<Rightarrow> (Thrown (Error ''Session not provided in Location header''), this')
            | Some l \<Rightarrow>
                (ReadingBody r, this'\<lparr> sessionUrl := Some (Resolved l (endpointUrl this')) \<rparr>)))"

text \<open>Lines 77-80, once \<^verbatim>\<open>setRemoteDescription\<close> has accepted the answer.\<close>

definition sendOffer_answer :: "string \<Rightarrow> WebRtcClient \<Rightarrow> WebRtcClient" where
  "sendOffer_answer sdp this = this\<lparr> remoteDescription := Some sdp \<rparr>"

text \<open>
  One turn of the loop of \<^verbatim>\<open>sendCachedCandidates\<close>, from the head of the loop to the next
  \<^verbatim>\<open>await\<close> or to the end of the method; \<open>i\<close> is the position of the array iterator in
  \<open>arr\<close>.
\<close>

definition flush_next :: "nat \<Rightarrow> RTCIceCandidate list \<Rightarrow> WebRtcClient \<Rightarrow> phase \<times> WebRtcClient" where
  "flush_next i arr this =
     (if i < length arr
      then (case sendCandidate (arr ! i) True this of
              Inl e \<Rightarrow> (FlushThrown e, this)
            | Inr this' \<Rightarrow> (Flushing (Suc i) arr, this'))
      else (Negotiated, this\<lparr> cachedCandidates := [] \<rparr>))"

text \<open>
  What the browser delivers, one at a time (execution is single-threaded): an
  \<^verbatim>\<open>icecandidate\<close> event; a call of \<^verbatim>\<open>sendOffer\<close>; or the settlement of the promise that
  the \<open>k\<close>-th call of \<^verbatim>\<open>sendOffer\<close>, or the \<^verbatim>\<open>sendCachedCandidates\<close> it started, is waiting
  for. \<open>OfferReady sdp\<close> stands for a call of \<^verbatim>\<open>sendOffer\<close> and its two awaits of lines
  50-51; \<open>Rejected k e\<close> for the awaited promise being rejected (a network failure, an
  answer the peer connection refuses).
\<close>

datatype event =
    IceCandidate "RTCIceCandidate option"
  | OfferReady string
  | PostResponse nat response
  | BodyRead nat
  | AnswerApplied nat
  | PatchDone nat
  | Rejected nat error

text \<open>
  A client and the calls of \<^verbatim>\<open>sendOffer\<close> made on it so far, in the order they were made.
  The method has no guard against being called again: every call issues its POST, also
  while an earlier call is waiting or after one has failed.
\<close>

record negotiation =
  client :: WebRtcClient
  calls :: "phase list"

definition waiting :: "negotiation \<Rightarrow> nat \<Rightarrow> phase option" where
  "waiting n k = (if k < length (calls n) then Some (calls n ! k) else None)"

definition resume :: "nat \<Rightarrow> phase \<times> WebRtcClient \<Rightarrow> negotiation \<Rightarrow> negotiation" where
  "resume k pc n = \<lparr> client = snd pc, calls = (calls n)[k := fst pc] \<rparr>"

text \<open>
  A settlement nothing is waiting for does not occur, so it changes nothing. A throw of
  the \<^verbatim>\<open>icecandidate\<close> handler is an unhandled rejection and changes nothing either.
\<close>

fun step :: "event \<Rightarrow> negotiation \<Rightarrow> negotiation" where
  "step (IceCandidate ev) n =
     (case handleIceCandidateFromClient ev (client n) of
        Inl e \<Rightarrow> n
      | Inr this' \<Rightarrow> n\<lparr> client := this' \<rparr>)"
| "step (OfferReady sdp) n =
     \<lparr> client = sendOffer_request sdp (client n), calls = calls n @ [AwaitingResponse] \<rparr>"
| "step (PostResponse k r) n =
     (case waiting n k of
        Some AwaitingResponse \<Rightarrow> resume k (sendOffer_response r (client n)) n
      | _ \<Rightarrow> n)"
| "step (BodyRead k) n =
     (case waiting n k of
        Some (ReadingBody r) \<Rightarrow> resume k (ApplyingAnswer (responseText r), client n) n
      | _ \<Rightarrow> n)"
| "step (AnswerApplied k) n =
     (case waiting n k of
        Some (ApplyingAnswer sdp) \<Rightarrow>
          resume k (flush_next 0 (cachedCandidates (client n)) (sendOffer_answer sdp (client n))) n
      | _ \<Rightarrow> n)"
| "step (PatchDone k) n =
     (case waiting n k of
        Some (Flushing i arr) \<Rightarrow> resume k (flush_next i arr (client n)) n
      | _ \<Rightarrow> n)"
| "step (Rejected k e) n =
     (case waiting n k of
        Some AwaitingResponse \<Rightarrow> resume k (Thrown e, client n) n
      | Some (ReadingBody r) \<Rightarrow> resume k (Thrown e, client n) n
      | Some (ApplyingAnswer sdp) \<Rightarrow> resume k (Thrown e, client n) n
      | Some (Flushing i arr) \<Rightarrow> resume k (FlushThrown e, client n) n
      | _ \<Rightarrow> n)"

definition run :: "event list \<Rightarrow> negotiation \<Rightarrow> negotiation" where
  "run evs n = foldl (\<lambda>n' e. step e n') n evs"

text \<open>
  Observers of a run, used to state the claims. \<open>payload e\<close> is the candidate a
  notification carries when it is not the end-of-gathering signal; \<open>queued n evs\<close> lists
  the candidates delivered, during the run of \<open>evs\<close> from \<open>n\<close>, while \<^verbatim>\<open>sessionUrl\<close> was
  unset, and \<open>direct n evs\<close> those delivered while it was set, both in order of arrival;
  \<open>relayed n\<close> lists the PATCH requests made so far, in the order of the calls of
  \<^verbatim>\<open>fetch\<close>; \<open>is_call e\<close> tells a call of \<^verbatim>\<open>sendOffer\<close>.
\<close>

fun payload :: "event \<Rightarrow> RTCIceCandidate option" where
  "payload (IceCandidate (Some c)) = (if candidate c = [] then None else Some c)"
| "payload _ = None"

fun is_call :: "event \<Rightarrow> bool" where
  "is_call (OfferReady sdp) = True"
| "is_call _ = False"

fun queued :: "negotiation \<Rightarrow> event list \<Rightarrow> RTCIceCandidate list" where
  "queued n [] = []"
| "queued n (e # es) =
     (case payload e of
        Some c \<Rightarrow> (if sessionUrl (client n) = None then [c] else []) @ queued (step e n) es
      | None \<Rightarrow> queued (step e n) es)"

fun direct :: "negotiation \<Rightarrow> event list \<Rightarrow> RTCIceCandidate list" where
  "direct n [] = []"
| "direct n (e # es) =
     (case payload e of
        Some c \<Rightarrow> (if sessionUrl (client n) = None then [] else [c]) @ direct (step e n) es
      | None \<Rightarrow> direct (step e n) es)"

definition relayed :: "negotiation \<Rightarrow> request list" where
  "relayed n = filter (\<lambda>r. httpMethod r = ''PATCH'') (fetched (client n))"

text \<open>
  A new client, on which \<^verbatim>\<open>sendOffer\<close> has not been called, and the invariant of the
  runs in which it is called at most once, where the candidates \<open>Q\<close> were delivered
  while \<^verbatim>\<open>sessionUrl\<close> was unset and the candidates \<open>D\<close> while it was set.
  \<open>early\<close>: nothing has been relayed and all candidates are in the queue.
  \<open>flushed_upto k\<close>: the PATCH requests made so far are an interleaving of the first \<open>k\<close>
  queued candidates with the candidates \<open>D\<close>, each list in its own order.
\<close>

definition created :: "WebRtcClient \<Rightarrow> negotiation" where
  "created this = \<lparr> client = this, calls = [] \<rparr>"

definition early :: "RTCIceCandidate list \<Rightarrow> RTCIceCandidate list \<Rightarrow> negotiation \<Rightarrow> bool" where
  "early Q D n \<longleftrightarrow>
     sessionUrl (client n) = None \<and> remoteDescription (client n) = None \<and>
     cachedCandidates (client n) = Q \<and> D = [] \<and> relayed n = []"

definition flushed_upto ::
  "nat \<Rightarrow> RTCIceCandidate list \<Rightarrow> RTCIceCandidate list \<Rightarrow> negotiation \<Rightarrow> bool" where
  "flushed_upto k Q D n \<longleftrightarrow>
     k \<le> length Q \<and> cachedCandidates (client n) = Q \<and>
     (\<exists>u. sessionUrl (client n) = Some u \<and>
          relayed n \<in> shuffles (map (trickle_request u) (take k Q)) (map (trickle_request u) D))"

definition phase_inv ::
  "RTCIceCandidate list \<Rightarrow> RTCIceCandidate list \<Rightarrow> negotiation \<Rightarrow> phase \<Rightarrow> bool" where
  "phase_inv Q D n p =
     (case p of
        AwaitingResponse \<Rightarrow> early Q D n
      | Stopped \<Rightarrow> early Q D n
      | Thrown e \<Rightarrow> early Q D n \<or> flushed_upto 0 Q D n
      | ReadingBody r \<Rightarrow> flushed_upto 0 Q D n
      | ApplyingAnswer sdp \<Rightarrow> flushed_upto 0 Q D n
      | Flushing i arr \<Rightarrow> arr = Q \<and> 0 < i \<and> flushed_upto i Q D n
      | FlushThrown e \<Rightarrow> (\<exists>k. flushed_upto k Q D n)
      | Negotiated \<Rightarrow>
          cachedCandidates (client n) = [] \<and>
          (\<exists>u. sessionUrl (client n) = Some u \<and>
               relayed n \<in> shuffles (map (trickle_request u) Q) (map (trickle_request u) D)))"

definition session_inv :: "RTCIceCandidate list \<Rightarrow> RTCIceCandidate list \<Rightarrow> negotiation \<Rightarrow> bool" where
  "session_inv Q D n =
     (case calls n of
        [] \<Rightarrow> early Q D n
      | [p] \<Rightarrow> phase_inv Q D n p
      | _ \<Rightarrow> True)"

section \<open>Pairing received tracks\<close>

text \<open>
  \<^verbatim>\<open>createPlayerElement\<close> (lines 383-391) makes a \<^verbatim>\<open>video\<close> element with these four
  properties and appends it to the container. A container is modelled by the list of
  the children appended to it.
\<close>

record HTMLVideoElement =
  controls :: bool
  muted :: bool
  autoplay :: bool
  srcObject :: MediaStream

record RTCTrackEvent =
  track :: MediaStreamTrack
  streams :: "MediaStream list"

text \<open>
  The fields that \<^verbatim>\<open>handleGotTrack\<close> uses; \<^verbatim>\<open>WhepClient\<close> and \<^verbatim>\<open>DuplexClient\<close> declare
  the same ones. \<open>container\<close> is \<open>None\<close> when no container element is configured
  (\<^verbatim>\<open>undefined\<close> or \<^verbatim>\<open>null\<close>). \<open>constructed\<close> records the calls of
  \<^verbatim>\<open>new MediaStream([...])\<close>, each with its array of tracks, in the order they are made.
\<close>

record TrackPairer =
  outputVideoTracks :: "MediaStreamTrack list"
  outputAudioTrack :: "MediaStreamTrack option"
  videoElements :: "HTMLVideoElement list"
  container :: "HTMLVideoElement list option"
  constructed :: "MediaStream list"

definition createPlayerElement ::
  "MediaStream \<Rightarrow> HTMLVideoElement list \<Rightarrow> HTMLVideoElement \<times> HTMLVideoElement list" where
  "createPlayerElement stream children =
     (let element = \<lparr> controls = True, muted = True, autoplay = True, srcObject = stream \<rparr>
      in (element, children @ [element]))"

text \<open>
  The body of the loop (lines 246-255) at index \<open>i\<close>; \<open>a\<close> is \<^verbatim>\<open>this.outputAudioTrack\<close>,
  which the guard of line 244 has found set. \<^verbatim>\<open>this.videoElements[i]\<close> is an element
  (truthy) below the length of the array and \<^verbatim>\<open>undefined\<close> from there on; the loop keeps
  \<open>i\<close> below the length of \<^verbatim>\<open>outputVideoTracks\<close>.
\<close>

definition pair_turn :: "MediaStreamTrack \<Rightarrow> nat \<Rightarrow> TrackPairer \<Rightarrow> TrackPairer" where
  "pair_turn a i this =
     (if i < length (videoElements this) then this
      else (let stream = (if i = 0 then [a, outputVideoTracks this ! i]
                          else [outputVideoTracks this ! i]);
                this' = this\<lparr> constructed := constructed this @ [stream] \<rparr>
            in case container this' of
                 None \<Rightarrow> this'
               | Some children \<Rightarrow>
                   this'\<lparr> videoElements :=
                            videoElements this' @ [fst (createPlayerElement stream children)],
                          container := Some (snd (createPlayerElement stream children)) \<rparr>))"

function pair_from :: "MediaStreamTrack \<Rightarrow> nat \<Rightarrow> TrackPairer \<Rightarrow> TrackPairer" where
  "pair_from a i this =
     (if i < length (outputVideoTracks this)
      then pair_from a (Suc i) (pair_turn a i this)
      else this)"
  by pat_completeness auto
termination
  by (relation "measure (\<lambda>(a, i, this). length (outputVideoTracks this) - i)")
     (auto simp: pair_turn_def Let_def split: option.splits)

declare pair_from.simps [simp del]

text \<open>
  The two halves of \<^verbatim>\<open>handleGotTrack\<close>: recording the track (lines 237-242 and
  342-347) and pairing (lines 244-257 and 349-362).
\<close>

definition record_track :: "RTCTrackEvent \<Rightarrow> TrackPairer \<Rightarrow> TrackPairer" where
  "record_track ev this =
     (let this1 = (if kind (track ev) = Video \<and> length (streams ev) > 0
                   then this\<lparr> outputVideoTracks := outputVideoTracks this @ [track ev] \<rparr>
                   else this)
      in if kind (track ev) = Audio
         then this1\<lparr> outputAudioTrack := Some (track ev) \<rparr>
         else this1)"

definition pair_tracks :: "TrackPairer \<Rightarrow> TrackPairer" where
  "pair_tracks this =
     (case outputAudioTrack this of
        None \<Rightarrow> this
      | Some a \<Rightarrow>
          if length (outputVideoTracks this) > length (videoElements this)
          then pair_from a 0 this
          else this)"

text \<open>\<^verbatim>\<open>WhepClient.handleGotTrack\<close> (lines 234-258).\<close>

definition WhepClient_handleGotTrack :: "RTCTrackEvent \<Rightarrow> TrackPairer \<Rightarrow> TrackPairer" where
  "WhepClient_handleGotTrack ev this = pair_tracks (record_track ev this)"

text \<open>\<^verbatim>\<open>DuplexClient.handleGotTrack\<close> (lines 339-363), the same text once more.\<close>

definition DuplexClient_handleGotTrack :: "RTCTrackEvent \<Rightarrow> TrackPairer \<Rightarrow> TrackPairer" where
  "DuplexClient_handleGotTrack ev this = pair_tracks (record_track ev this)"

text \<open>
  The pairer of a new client (the field initialisers of lines 211-214 and 299-302), with
  the container the constructor found, and the delivery of a list of \<^verbatim>\<open>track\<close> events.
\<close>

definition new_pairer :: "HTMLVideoElement list option \<Rightarrow> TrackPairer" where
  "new_pairer c =
     \<lparr> outputVideoTracks = [], outputAudioTrack = None, videoElements = [],
       container = c, constructed = [] \<rparr>"

definition deliver ::
  "(RTCTrackEvent \<Rightarrow> TrackPairer \<Rightarrow> TrackPairer) \<Rightarrow> RTCTrackEvent list \<Rightarrow> TrackPairer \<Rightarrow> TrackPairer" where
  "deliver handler evs this = foldl (\<lambda>this' ev. handler ev this') this evs"

text \<open>The array \<^verbatim>\<open>[audio, video]\<close> or \<^verbatim>\<open>[video]\<close> given to \<^verbatim>\<open>new MediaStream\<close> at index \<open>i\<close>.\<close>

definition grouping :: "MediaStreamTrack \<Rightarrow> MediaStreamTrack list \<Rightarrow> nat \<Rightarrow> MediaStream" where
  "grouping a vs i = (if i = 0 then [a, vs ! i] else [vs ! i])"

definition player :: "MediaStream \<Rightarrow> HTMLVideoElement" where
  "player stream = \<lparr> controls = True, muted = True, autoplay = True, srcObject = stream \<rparr>"

text \<open>
  The invariant of a pairer that has a container: every stream constructed is shown by
  one player, the \<open>i\<close>-th stream ends with the \<open>i\<close>-th recorded video track, no stream is
  constructed before an audio track is recorded, and from then on there is one stream per
  recorded video track.
\<close>

definition paired_once :: "TrackPairer \<Rightarrow> bool" where
  "paired_once this \<longleftrightarrow>
     container this \<noteq> None \<and>
     map srcObject (videoElements this) = constructed this \<and>
     length (constructed this) \<le> length (outputVideoTracks this) \<and>
     map last (constructed this) = take (length (constructed this)) (outputVideoTracks this) \<and>
     (outputAudioTrack this = None \<longrightarrow> constructed this = []) \<and>
     (outputAudioTrack this \<noteq> None \<longrightarrow>
        length (constructed this) = length (outputVideoTracks this))"

section \<open>Starting a publisher or a duplex client\<close>

text \<open>
  What \<^verbatim>\<open>navigator.mediaDevices\<close> does when \<^verbatim>\<open>requestAccess\<close> (lines 366-381) runs:
  it is missing, or \<^verbatim>\<open>getUserMedia\<close> is rejected, or it yields a stream. The function
  returns the stream or \<^verbatim>\<open>null\<close>, and the messages it writes to the console.
\<close>

datatype getUserMedia = NoMediaDevices | Denied | Granted MediaStream

definition requestAccess :: "getUserMedia \<Rightarrow> MediaStream option \<times> string list" where
  "requestAccess env =
     (case env of
        NoMediaDevices \<Rightarrow> (None, [''Can't request user media (insecure context?)''])
      | Denied \<Rightarrow> (None, [''Requesting access to user media'', ''Couldn't get user media''])
      | Granted m \<Rightarrow> (Some m, [''Requesting access to user media'']))"

text \<open>
  How a \<^verbatim>\<open>start\<close> method ends: it returns \<^verbatim>\<open>false\<close>; or it awaits \<^verbatim>\<open>sendOffer\<close> and then
  returns \<^verbatim>\<open>true\<close> (or throws what \<^verbatim>\<open>sendOffer\<close> throws); or it calls \<^verbatim>\<open>sendOffer\<close>
  without awaiting it and returns \<^verbatim>\<open>undefined\<close>.
\<close>

datatype start_result = Return_false | Await_sendOffer_return_true | Call_sendOffer_return_undefined

record WhipClient = WebRtcClient +
  media :: "MediaStream option"

text \<open>
  \<^verbatim>\<open>WhipClient.start\<close> (lines 275-292) up to the call of \<^verbatim>\<open>sendOffer\<close>; the result
  carries the console messages about media access (the \<^verbatim>\<open>Adding track\<close> lines are left
  out).
\<close>

definition WhipClient_start ::
  "getUserMedia \<Rightarrow> WhipClient \<Rightarrow> start_result \<times> string list \<times> WhipClient" where
  "WhipClient_start env this =
     (case media this of
        Some m \<Rightarrow>
          (Await_sendOffer_return_true, [], this\<lparr> senders := senders this @ m \<rparr>)
      | None \<Rightarrow>
          (case fst (requestAccess env) of
             None \<Rightarrow>
               (Return_false, snd (requestAccess env) @ [''Could not access media devices''],
                this\<lparr> media := None \<rparr>)
           | Some m \<Rightarrow>
               (Await_sendOffer_return_true, snd (requestAccess env),
                this\<lparr> media := Some m, senders := senders this @ m \<rparr>)))"

text \<open>
  \<^verbatim>\<open>DuplexClient\<close> declares \<^verbatim>\<open>media\<close> as \<^verbatim>\<open>WhipClient\<close> does, and
  \<^verbatim>\<open>simulcastVideoCount\<close>, a count (\<^verbatim>\<open>Array(n)\<close> has \<open>n\<close> slots).
\<close>

record DuplexClient = WhipClient +
  simulcastVideoCount :: nat

text \<open>\<^verbatim>\<open>DuplexClient.start\<close> (lines 316-336) up to the call of \<^verbatim>\<open>sendOffer\<close>.\<close>

definition DuplexClient_start ::
  "getUserMedia \<Rightarrow> DuplexClient \<Rightarrow> start_result \<times> string list \<times> DuplexClient" where
  "DuplexClient_start env this =
     (let this1 = (if media this = None then this\<lparr> media := fst (requestAccess env) \<rparr> else this);
          logged = (if media this = None then snd (requestAccess env) else []);
          this2 = this1\<lparr> transceivers := transceivers this1 @
                     replicate (simulcastVideoCount this1) (Video, ''recvonly'') @
                     [(Audio, ''recvonly'')] \<rparr>;
          this3 = (case media this2 of
                     Some m \<Rightarrow> this2\<lparr> senders := senders this2 @ m \<rparr>
                   | None \<Rightarrow> this2)
      in (Call_sendOffer_return_undefined, logged, this3))"

section \<open>Concrete inputs\<close>

text \<open>
  The client \<^verbatim>\<open>new WebRtcClient({url: "whip"})\<close> built on the page
  \<^verbatim>\<open>https://example.org/\<close>, a candidate, and responses of the server.
\<close>

definition example_client :: WebRtcClient where
  "example_client =
     \<lparr> cachedCandidates = [],
       endpointUrl = Resolved ''whip'' (Href ''https://example.org/''),
       sessionUrl = None,
       iceServers = [],
       localDescription = None,
       remoteDescription = None,
       transceivers = [],
       senders = [],
       fetched = [],
       dispatched = [] \<rparr>"

definition example_candidate :: "string \<Rightarrow> RTCIceCandidate" where
  "example_candidate line =
     \<lparr> candidate = line, sdpMid = Some ''0'', usernameFragment = Some ''abcd'' \<rparr>"

definition example_server :: RTCIceServer where
  "example_server =
     \<lparr> urls = [''stun:stun.example.org''], username = None, credential = None,
       credentialType = None \<rparr>"

definition example_response :: "bool \<Rightarrow> string option \<Rightarrow> string option \<Rightarrow> response" where
  "example_response isOk linkHeader locationHeader =
     \<lparr> ok = isOk, link = linkHeader, location = locationHeader, responseText = ''v=0'' \<rparr>"

definition example_link :: string where
  "example_link = ''<turn:example.com>; rel=\"ice-server\"; username=\"u\"; credential=\"p\"''"

definition example_config :: WebRtcClientConfig where
  "example_config = \<lparr> url = Some ''whip'', configIceServers = None \<rparr>"

definition example_session :: url where
  "example_session = Resolved ''/session/abc123'' (Resolved ''whip'' (Href ''https://example.org/''))"

definition example_answer :: response where
  "example_answer = example_response True None (Some ''/session/abc123'')"

text \<open>
  Runs of one client. \<open>example_offer\<close>: \<^verbatim>\<open>sendOffer\<close> is called and a candidate arrives
  before the answer. \<open>example_trace\<close>: the answer arrives, a second candidate arrives
  while its body is read, and the flush runs to its end. \<open>example_later\<close>: what the peer
  connection and the network may still deliver after a failed offer.
  \<open>example_returned\<close>: two candidates are queued and \<^verbatim>\<open>sendOffer\<close> returns.
  \<open>example_failure\<close>: the PATCH the flush is waiting for is rejected. \<open>example_retry\<close>:
  \<^verbatim>\<open>sendOffer\<close> is called a second time and answered with a \<^verbatim>\<open>Location\<close>.
\<close>

definition example_offer :: "event list" where
  "example_offer =
     [OfferReady ''v=0'',
      IceCandidate (Some (example_candidate ''candidate:1'')),
      IceCandidate None]"

definition example_trace :: "event list" where
  "example_trace =
     example_offer @
     [PostResponse 0 example_answer,
      IceCandidate (Some (example_candidate ''candidate:2'')),
      BodyRead 0,
      AnswerApplied 0,
      PatchDone 0]"

definition example_later :: "event list" where
  "example_later =
     [IceCandidate (Some (example_candidate ''candidate:2'')), BodyRead 0, AnswerApplied 0,
      PatchDone 0]"

definition example_returned :: "event list" where
  "example_returned =
     [OfferReady ''v=0'',
      IceCandidate (Some (example_candidate ''candidate:1'')),
      IceCandidate (Some (example_candidate ''candidate:3'')),
      PostResponse 0 example_answer,
      BodyRead 0,
      AnswerApplied 0]"

definition example_failure :: "event list" where
  "example_failure =
     [Rejected 0 (Error ''Failed to fetch''),
      PatchDone 0,
      IceCandidate (Some (example_candidate ''candidate:2''))]"

definition example_retry :: "event list" where
  "example_retry =
     [OfferReady ''v=0'',
      PostResponse 1 example_answer,
      BodyRead 1,
      AnswerApplied 1,
      PatchDone 1]"

definition example_video :: "string \<Rightarrow> RTCTrackEvent" where
  "example_video name = \<lparr> track = Track Video name, streams = [[Track Video name]] \<rparr>"

definition example_audio :: RTCTrackEvent where
  "example_audio = \<lparr> track = Track Audio ''audio'', streams = [] \<rparr>"

definition example_whip :: WhipClient where
  "example_whip =
     \<lparr> cachedCandidates = [],
       endpointUrl = Resolved ''whip'' (Href ''https://example.org/''),
       sessionUrl = None,
       iceServers = [],
       localDescription = None,
       remoteDescription = None,
       transceivers = [],
       senders = [],
       fetched = [],
       dispatched = [],
       media = None \<rparr>"

definition example_duplex :: DuplexClient where
  "example_duplex =
     \<lparr> cachedCandidates = [],
       endpointUrl = Resolved ''duplex'' (Href ''https://example.org/''),
       sessionUrl = None,
       iceServers = [],
       localDescription = None,
       remoteDescription = None,
       transceivers = [],
       senders = [],
       fetched = [],
       dispatched = [],
       media = None,
       simulcastVideoCount = 1 \<rparr>"

section \<open>Theorems\<close>

text \<open>
  Claim C6. A candidate relayed while the session URL \<open>u\<close> is known makes exactly one
  more call of \<^verbatim>\<open>fetch\<close>: a PATCH to \<open>u\<close> with media type
  \<^verbatim>\<open>application/trickle-ice-sdpfrag\<close>, whose body is the four lines
  \<^verbatim>\<open>m=audio 9 RTP/AVP 0\<close>, \<^verbatim>\<open>a=ice-ufrag:\<close> with the username fragment, \<^verbatim>\<open>a=mid:\<close> with the
  media id and \<^verbatim>\<open>a=\<close> with the candidate line, separated by CR LF and with nothing
  after the last one; no line carries the ICE password. (A \<^verbatim>\<open>null\<close> username fragment
  or media id prints as \<^verbatim>\<open>null\<close>, as string concatenation does.)
\<close>

theorem sendCandidate_fragment:
  assumes "sessionUrl this = Some u"
  shows "sendCandidate c isCached this =
           Inr (this\<lparr> fetched := fetched this @
             [\<lparr> target = u,
                httpMethod = ''PATCH'',
                contentType = ''application/trickle-ice-sdpfrag'',
                body = ''m=audio 9 RTP/AVP 0'' @ [CHR 0x0D, CHR 0x0A] @
                       ''a=ice-ufrag:'' @ js_string (usernameFragment c) @ [CHR 0x0D, CHR 0x0A] @
                       ''a=mid:'' @ js_string (sdpMid c) @ [CHR 0x0D, CHR 0x0A] @
                       ''a='' @ candidate c \<rparr>] \<rparr>)"
  using assms by (simp add: sendCandidate_def trickle_request_def crlf_def)

theorem sendCandidate_fragment_witness:
  "sessionUrl (example_client\<lparr> sessionUrl := Some (Href ''https://example.org/session/1'') \<rparr>) =
     Some (Href ''https://example.org/session/1'') \<and>
   sendCandidate (example_candidate ''candidate:1 1 udp 1 192.0.2.1 9 typ host'') True
       (example_client\<lparr> sessionUrl := Some (Href ''https://example.org/session/1'') \<rparr>) =
     Inr (example_client\<lparr> sessionUrl := Some (Href ''https://example.org/session/1''),
            fetched :=
             [\<lparr> target = Href ''https://example.org/session/1'',
                httpMethod = ''PATCH'',
                contentType = ''application/trickle-ice-sdpfrag'',
                body = ''m=audio 9 RTP/AVP 0'' @ [CHR 0x0D, CHR 0x0A] @
                       ''a=ice-ufrag:abcd'' @ [CHR 0x0D, CHR 0x0A] @
                       ''a=mid:0'' @ [CHR 0x0D, CHR 0x0A] @
                       ''a=candidate:1 1 udp 1 192.0.2.1 9 typ host'' \<rparr>] \<rparr>)"
  using sendCandidate_fragment
    [of "example_client\<lparr> sessionUrl := Some (Href ''https://example.org/session/1'') \<rparr>"
        "Href ''https://example.org/session/1''"
        "example_candidate ''candidate:1 1 udp 1 192.0.2.1 9 typ host''" True]
  by (simp add: example_client_def example_candidate_def js_string_def)

subsection \<open>Relay-server discovery\<close>

lemma parse_link_example:
  "parse_link ''<turn:example.com>; rel=\"ice-server\"; username=\"u\"; credential=\"p\"'' =
     [\<lparr> urls = [''turn:example.com''], username = Some ''u'', credential = Some ''p'',
        credentialType = None \<rparr>]"
  by code_simp

lemma parse_link_Nil: "parse_link [] = []"
  by code_simp

text \<open>
  Claim C5. For a response \<open>r\<close> whose \<^verbatim>\<open>Link\<close> header is
  \<^verbatim>\<open><turn:example.com>; rel="ice-server"; username="u"; credential="p"\<close>:
  when the peer connection reports no relay server, \<^verbatim>\<open>receiveIceServers\<close> replaces the
  configuration by the one server with that URL, user name and credential and changes
  nothing else; when it reports some, the client is left as it was. And for every
  response \<open>r'\<close> and client \<open>this'\<close> the method either changes nothing or installs the whole
  parsed list over an empty configuration: never a part of it, never a merge.
\<close>

theorem receiveIceServers_example:
  assumes "link r = Some ''<turn:example.com>; rel=\"ice-server\"; username=\"u\"; credential=\"p\"''"
  shows "(iceServers this = [] \<longrightarrow>
            receiveIceServers r this =
              this\<lparr> iceServers :=
                [\<lparr> urls = [''turn:example.com''], username = Some ''u'', credential = Some ''p'',
                   credentialType = None \<rparr>] \<rparr>)
       \<and> (iceServers this \<noteq> [] \<longrightarrow> receiveIceServers r this = this)
       \<and> (receiveIceServers r' this' = this' \<or>
          (\<exists>h. link r' = Some h \<and> iceServers this' = [] \<and>
               receiveIceServers r' this' = this'\<lparr> iceServers := parse_link h \<rparr>))"
  using assms parse_link_example
  by (auto simp: receiveIceServers_def Let_def split: option.splits)

theorem receiveIceServers_example_witness:
  "link (example_response True (Some example_link) None) =
     Some ''<turn:example.com>; rel=\"ice-server\"; username=\"u\"; credential=\"p\"'' \<and>
   iceServers example_client = [] \<and>
   receiveIceServers (example_response True (Some example_link) None) example_client =
     example_client\<lparr> iceServers :=
       [\<lparr> urls = [''turn:example.com''], username = Some ''u'', credential = Some ''p'',
          credentialType = None \<rparr>] \<rparr> \<and>
   iceServers (example_client\<lparr> iceServers := [example_server] \<rparr>) \<noteq> [] \<and>
   receiveIceServers (example_response True (Some example_link) None)
       (example_client\<lparr> iceServers := [example_server] \<rparr>) =
     example_client\<lparr> iceServers := [example_server] \<rparr>"
  using receiveIceServers_example
      [of "example_response True (Some example_link) None" example_client]
    receiveIceServers_example
      [of "example_response True (Some example_link) None"
          "example_client\<lparr> iceServers := [example_server] \<rparr>"]
  by (simp add: example_response_def example_link_def example_client_def)

subsection \<open>The invariant of a negotiation\<close>

lemma shuffles_snoc_right: "zs \<in> shuffles xs ys \<Longrightarrow> zs @ [y] \<in> shuffles xs (ys @ [y])"
proof (induction zs arbitrary: xs ys)
  case Nil
  then show ?case by simp
next
  case (Cons z zs)
  then show ?case by (auto simp: Cons_in_shuffles_iff)
qed

lemma shuffles_snoc_left: "zs \<in> shuffles xs ys \<Longrightarrow> zs @ [x] \<in> shuffles (xs @ [x]) ys"
  using shuffles_snoc_right [of zs ys xs x] by (simp add: shuffles_commutes)

lemma httpMethod_trickle [simp]: "httpMethod (trickle_request u c) = ''PATCH''"
  by (simp add: trickle_request_def)

lemma receiveIceServers_fields [simp]:
  "sessionUrl (receiveIceServers r this) = sessionUrl this"
  "cachedCandidates (receiveIceServers r this) = cachedCandidates this"
  "fetched (receiveIceServers r this) = fetched this"
  "dispatched (receiveIceServers r this) = dispatched this"
  "remoteDescription (receiveIceServers r this) = remoteDescription this"
  "endpointUrl (receiveIceServers r this) = endpointUrl this"
  by (simp_all add: receiveIceServers_def Let_def split: option.splits)

lemma calls_candidate [simp]: "calls (step (IceCandidate ev) n) = calls n"
  by (simp split: sum.splits)

lemma length_calls_step:
  "length (calls (step e n)) = length (calls n) + (if is_call e then 1 else 0)"
  by (cases e)
     (auto simp: waiting_def resume_def split: sum.splits option.splits phase.splits)

lemma early_candidate:
  assumes "early Q D n" "candidate c \<noteq> []"
  shows "early (Q @ [c]) D (step (IceCandidate (Some c)) n)"
  using assms by (simp add: early_def handleIceCandidateFromClient_def relayed_def)

lemma flushed_candidate:
  assumes "flushed_upto k Q D n" "candidate c \<noteq> []"
  shows "flushed_upto k Q (D @ [c]) (step (IceCandidate (Some c)) n)"
  using assms
  by (auto simp: flushed_upto_def handleIceCandidateFromClient_def sendCandidate_def relayed_def
           intro: shuffles_snoc_right)

lemma negotiated_candidate:
  assumes "cachedCandidates (client n) = []" "sessionUrl (client n) = Some u"
    "relayed n \<in> shuffles (map (trickle_request u) Q) (map (trickle_request u) D)"
    "candidate c \<noteq> []"
  shows "cachedCandidates (client (step (IceCandidate (Some c)) n)) = [] \<and>
         sessionUrl (client (step (IceCandidate (Some c)) n)) = Some u \<and>
         relayed (step (IceCandidate (Some c)) n) \<in>
           shuffles (map (trickle_request u) Q) (map (trickle_request u) (D @ [c]))"
  using assms
  by (auto simp: handleIceCandidateFromClient_def sendCandidate_def relayed_def
           intro: shuffles_snoc_right)

lemma early_unset: "early Q D n \<Longrightarrow> sessionUrl (client n) = None"
  by (simp add: early_def)

lemma flushed_set: "flushed_upto k Q D n \<Longrightarrow> sessionUrl (client n) \<noteq> None"
  by (auto simp: flushed_upto_def)

lemma pinv_candidate:
  assumes "phase_inv Q D n p" "candidate c \<noteq> []"
  shows "phase_inv (Q @ queued n [IceCandidate (Some c)]) (D @ direct n [IceCandidate (Some c)])
           (step (IceCandidate (Some c)) n) p"
  using assms(1) negotiated_candidate [OF _ _ _ assms(2), of n _ Q D]
  unfolding phase_inv_def
  by (cases p)
     (auto simp: assms(2) simp del: step.simps
           dest: early_unset flushed_set
           intro: early_candidate [OF _ assms(2)] flushed_candidate [OF _ assms(2)])

lemma inv_candidate:
  assumes "session_inv Q D n"
  shows "session_inv (Q @ queued n [IceCandidate ev]) (D @ direct n [IceCandidate ev])
           (step (IceCandidate ev) n)"
proof (cases "payload (IceCandidate ev)")
  case None
  then have "step (IceCandidate ev) n = n"
    by (cases ev) (auto simp: handleIceCandidateFromClient_def split: if_splits)
  with None assms show ?thesis by simp
next
  case (Some c)
  then have ev: "ev = Some c" and c: "candidate c \<noteq> []"
    by (cases ev; simp split: if_splits)+
  show ?thesis
  proof (cases "calls n")
    case Nil
    with assms have e: "early Q D n" by (simp add: session_inv_def)
    from early_candidate [OF e c] early_unset [OF e] Nil show ?thesis
      by (simp add: session_inv_def ev c del: step.simps)
  next
    case (Cons p ps)
    show ?thesis
    proof (cases ps)
      case Nil
      with Cons assms have "phase_inv Q D n p" by (simp add: session_inv_def)
      from pinv_candidate [OF this c] Cons Nil show ?thesis
        by (simp add: session_inv_def ev del: step.simps queued.simps direct.simps)
    next
      case (Cons q qs)
      with \<open>calls n = p # ps\<close> show ?thesis by (simp add: session_inv_def del: step.simps)
    qed
  qed
qed


lemma calls_cases:
  obtains (none) "calls n = []" | (one) p where "calls n = [p]"
    | (more) "2 \<le> length (calls n)"
  by (cases "calls n"; cases "tl (calls n)") auto

lemma inv_more: "2 \<le> length (calls n) \<Longrightarrow> session_inv Q D n"
  by (cases "calls n"; cases "tl (calls n)") (auto simp: session_inv_def)

lemma inv_more_step: "2 \<le> length (calls n) \<Longrightarrow> session_inv Q D (step e n)"
  by (rule inv_more) (simp add: length_calls_step del: step.simps)

lemma inv_offer:
  assumes "session_inv Q D n"
  shows "session_inv Q D (step (OfferReady sdp) n)"
proof (cases n rule: calls_cases)
  case none
  with assms show ?thesis
    by (simp add: session_inv_def phase_inv_def early_def sendOffer_request_def relayed_def)
next
  case (one p)
  then show ?thesis by (simp add: session_inv_def)
next
  case more
  then show ?thesis by (rule inv_more_step)
qed

lemma inv_response:
  assumes "session_inv Q D n"
  shows "session_inv Q D (step (PostResponse k r) n)"
proof (cases n rule: calls_cases)
  case none
  with assms show ?thesis by (simp add: waiting_def)
next
  case (one p)
  with assms show ?thesis
    by (cases p; cases k)
       (auto simp: session_inv_def phase_inv_def waiting_def resume_def early_def
                   flushed_upto_def sendOffer_response_def onResponseError_def relayed_def
                   Let_def split: option.splits)
next
  case more
  then show ?thesis by (rule inv_more_step)
qed

lemma inv_body:
  assumes "session_inv Q D n"
  shows "session_inv Q D (step (BodyRead k) n)"
proof (cases n rule: calls_cases)
  case none
  with assms show ?thesis by (simp add: waiting_def)
next
  case (one p)
  with assms show ?thesis
    by (cases p; cases k)
       (auto simp: session_inv_def phase_inv_def waiting_def resume_def flushed_upto_def
                   relayed_def)
next
  case more
  then show ?thesis by (rule inv_more_step)
qed

lemma flushed_next:
  assumes "flushed_upto i Q D n"
  shows "(i < length Q \<longrightarrow>
            fst (flush_next i Q (client n)) = Flushing (Suc i) Q \<and>
            flushed_upto (Suc i) Q D \<lparr> client = snd (flush_next i Q (client n)), calls = cs \<rparr>)
       \<and> (\<not> i < length Q \<longrightarrow>
            fst (flush_next i Q (client n)) = Negotiated \<and>
            cachedCandidates (snd (flush_next i Q (client n))) = [] \<and>
            (\<exists>u. sessionUrl (snd (flush_next i Q (client n))) = Some u \<and>
                 relayed \<lparr> client = snd (flush_next i Q (client n)), calls = cs' \<rparr> \<in>
                   shuffles (map (trickle_request u) Q) (map (trickle_request u) D)))"
  using assms
  by (auto simp: flushed_upto_def flush_next_def sendCandidate_def relayed_def
                 take_Suc_conv_app_nth
           intro: shuffles_snoc_left)

lemma flushed_answer:
  assumes "flushed_upto i Q D n"
  shows "flushed_upto i Q D (n\<lparr> client := sendOffer_answer sdp (client n) \<rparr>)"
  using assms by (auto simp: flushed_upto_def sendOffer_answer_def relayed_def)

lemma inv_answer:
  assumes "session_inv Q D n"
  shows "session_inv Q D (step (AnswerApplied k) n)"
proof (cases n rule: calls_cases)
  case none
  with assms show ?thesis by (simp add: waiting_def)
next
  case (one p)
  show ?thesis
  proof (cases "k = 0 \<and> (\<exists>sdp. p = ApplyingAnswer sdp)")
    case True
    then obtain sdp where k: "k = 0" and p: "p = ApplyingAnswer sdp" by auto
    from assms one p have f: "flushed_upto 0 Q D n"
      by (simp add: session_inv_def phase_inv_def)
    then have q: "cachedCandidates (client n) = Q" by (simp add: flushed_upto_def)
    let ?m = "n\<lparr> client := sendOffer_answer sdp (client n) \<rparr>"
    from flushed_next [OF flushed_answer [OF f, of sdp]] one p k q show ?thesis
      by (cases "0 < length Q")
         (auto simp: session_inv_def phase_inv_def waiting_def resume_def)
  next
    case False
    with one have "step (AnswerApplied k) n = n"
      by (cases p; cases k) (auto simp: waiting_def)
    with assms show ?thesis by simp
  qed
next
  case more
  then show ?thesis by (rule inv_more_step)
qed

lemma inv_patch:
  assumes "session_inv Q D n"
  shows "session_inv Q D (step (PatchDone k) n)"
proof (cases n rule: calls_cases)
  case none
  with assms show ?thesis by (simp add: waiting_def)
next
  case (one p)
  show ?thesis
  proof (cases "k = 0 \<and> (\<exists>i arr. p = Flushing i arr)")
    case True
    then obtain i arr where k: "k = 0" and p: "p = Flushing i arr" by auto
    from assms one p have a: "arr = Q" and f: "flushed_upto i Q D n"
      by (simp_all add: session_inv_def phase_inv_def)
    from flushed_next [OF f] one p k a show ?thesis
      by (cases "i < length Q")
         (auto simp: session_inv_def phase_inv_def waiting_def resume_def)
  next
    case False
    with one have "step (PatchDone k) n = n"
      by (cases p; cases k) (auto simp: waiting_def)
    with assms show ?thesis by simp
  qed
next
  case more
  then show ?thesis by (rule inv_more_step)
qed

lemma inv_rejected:
  assumes "session_inv Q D n"
  shows "session_inv Q D (step (Rejected k e) n)"
proof (cases n rule: calls_cases)
  case none
  with assms show ?thesis by (simp add: waiting_def)
next
  case (one p)
  with assms show ?thesis
    by (cases p; cases k)
       (auto simp: session_inv_def phase_inv_def waiting_def resume_def early_def
                   flushed_upto_def relayed_def)
next
  case more
  then show ?thesis by (rule inv_more_step)
qed

lemma inv_step:
  assumes "session_inv Q D n"
  shows "session_inv (Q @ queued n [e]) (D @ direct n [e]) (step e n)"
proof (cases e)
  case (IceCandidate ev)
  with inv_candidate [OF assms] show ?thesis by simp
qed (use assms inv_offer inv_response inv_body inv_answer inv_patch inv_rejected
      in \<open>simp_all del: step.simps\<close>)

lemma queued_Cons: "queued n (e # es) = queued n [e] @ queued (step e n) es"
  by (simp split: option.splits)

lemma direct_Cons: "direct n (e # es) = direct n [e] @ direct (step e n) es"
  by (simp split: option.splits)

lemma inv_run:
  assumes "session_inv Q D n"
  shows "session_inv (Q @ queued n evs) (D @ direct n evs) (run evs n)"
  using assms
proof (induction evs arbitrary: Q D n)
  case Nil
  then show ?case by (simp add: run_def)
next
  case (Cons e es)
  from Cons.IH [OF inv_step [OF Cons.prems, of e]] show ?case
    by (simp add: run_def queued_Cons [of n e es] direct_Cons [of n e es]
             del: queued.simps direct.simps step.simps)
qed

lemma inv_created:
  assumes "WebRtcClient_new config href = Inr c0"
  shows "session_inv [] [] (created c0)"
  using assms
  by (auto simp: WebRtcClient_new_def created_def session_inv_def early_def relayed_def
           split: option.splits if_splits)

lemma reachable_inv:
  assumes "WebRtcClient_new config href = Inr c0"
  shows "session_inv (queued (created c0) evs) (direct (created c0) evs) (run evs (created c0))"
  using inv_run [OF inv_created [OF assms], of evs] by simp

subsection \<open>Settled calls, progress of the flush and the example runs\<close>

lemma run_Cons: "run (e # es) n = run es (step e n)"
  by (simp add: run_def)


lemma settled_waiting:
  assumes "\<forall>p \<in> set (calls n). \<not> pending p"
  shows "waiting n k = None \<or> (\<exists>p. waiting n k = Some p \<and> \<not> pending p)"
  using assms by (auto simp: waiting_def)

lemma settled_step:
  assumes "\<forall>p \<in> set (calls n). \<not> pending p" "\<not> is_call e" "payload e = None"
  shows "step e n = n"
proof (cases e)
  case (IceCandidate ev)
  with assms(3) show ?thesis
    by (cases ev) (auto simp: handleIceCandidateFromClient_def split: if_splits)
next
  case (OfferReady sdp)
  with assms(2) show ?thesis by simp
next
  case (PostResponse k r)
  with settled_waiting [OF assms(1), of k] show ?thesis
    by (auto split: phase.splits)
next
  case (BodyRead k)
  with settled_waiting [OF assms(1), of k] show ?thesis
    by (auto split: phase.splits)
next
  case (AnswerApplied k)
  with settled_waiting [OF assms(1), of k] show ?thesis
    by (auto split: phase.splits)
next
  case (PatchDone k)
  with settled_waiting [OF assms(1), of k] show ?thesis
    by (auto split: phase.splits)
next
  case (Rejected k x)
  with settled_waiting [OF assms(1), of k] show ?thesis
    by (auto split: phase.splits)
qed

lemma payload_step:
  assumes "payload e = Some c"
  shows "step e n =
           (case sessionUrl (client n) of
              None \<Rightarrow> n\<lparr> client := (client n)\<lparr> cachedCandidates :=
                          cachedCandidates (client n) @ [c] \<rparr> \<rparr>
            | Some u \<Rightarrow> n\<lparr> client := (client n)\<lparr> fetched :=
                          fetched (client n) @ [trickle_request u c] \<rparr> \<rparr>)"
proof -
  from assms obtain ev where "e = IceCandidate ev" by (cases e) simp_all
  with assms have "e = IceCandidate (Some c)" "candidate c \<noteq> []"
    by (cases ev; simp split: if_splits)+
  then show ?thesis
    by (simp add: handleIceCandidateFromClient_def sendCandidate_def split: option.splits)
qed

lemma halted_run:
  assumes "\<forall>p \<in> set (calls n). \<not> pending p" "\<forall>e \<in> set evs. \<not> is_call e"
    "sessionUrl (client n) = None"
  shows "run evs n =
           n\<lparr> client := (client n)\<lparr> cachedCandidates :=
                 cachedCandidates (client n) @ queued n evs \<rparr> \<rparr>"
  using assms
proof (induction evs arbitrary: n)
  case Nil
  then show ?case by (simp add: run_def)
next
  case (Cons e es)
  let ?m = "step e n"
  have m: "?m = n\<lparr> client := (client n)\<lparr> cachedCandidates :=
                 cachedCandidates (client n) @ queued n [e] \<rparr> \<rparr>"
  proof (cases "payload e")
    case None
    with settled_step [OF Cons.prems(1), of e] Cons.prems(2) show ?thesis by simp
  next
    case (Some c)
    with payload_step [OF Some, of n] Cons.prems(3) show ?thesis by simp
  qed
  have "run es ?m =
      ?m\<lparr> client := (client ?m)\<lparr> cachedCandidates :=
                 cachedCandidates (client ?m) @ queued ?m es \<rparr> \<rparr>"
    using Cons.prems by (intro Cons.IH) (simp_all add: m del: step.simps queued.simps)
  then show ?case
    by (simp add: run_Cons m queued_Cons [of n e es] del: step.simps queued.simps)
qed


lemma iceServers_step:
  assumes "iceServers (client n) \<noteq> []"
  shows "iceServers (client (step e n)) = iceServers (client n)"
  using assms
  by (cases e)
     (auto simp: waiting_def resume_def handleIceCandidateFromClient_def sendCandidate_def
                 sendOffer_request_def sendOffer_response_def sendOffer_answer_def
                 onResponseError_def receiveIceServers_def flush_next_def Let_def
           split: option.splits phase.splits sum.splits if_splits)

lemma iceServers_run:
  assumes "iceServers (client n) \<noteq> []"
  shows "iceServers (client (run evs n)) = iceServers (client n)"
  using assms
proof (induction evs arbitrary: n)
  case Nil
  then show ?case by (simp add: run_def)
next
  case (Cons e es)
  from iceServers_step [OF Cons.prems, of e] Cons.prems Cons.IH [of "step e n"]
  show ?case by (simp add: run_Cons del: step.simps)
qed

lemma done_step:
  assumes "waiting n k = Some p" "\<not> pending p"
  shows "waiting (step e n) k = Some p"
proof -
  from assms(1) have k: "k < length (calls n)" "calls n ! k = p"
    by (auto simp: waiting_def split: if_splits)
  have upd: "waiting (resume j pc n) k = Some p" if "j \<noteq> k" for j pc
    using k that by (simp add: waiting_def resume_def)
  show ?thesis
  proof (cases e)
    case (IceCandidate ev)
    with k show ?thesis by (simp add: waiting_def del: step.simps)
  next
    case (OfferReady sdp)
    with k show ?thesis by (simp add: waiting_def nth_append)
  next
    case (PostResponse j r)
    with assms upd [of j] show ?thesis
      by (cases "j = k") (auto split: option.splits phase.splits)
  next
    case (BodyRead j)
    with assms upd [of j] show ?thesis
      by (cases "j = k") (auto split: option.splits phase.splits)
  next
    case (AnswerApplied j)
    with assms upd [of j] show ?thesis
      by (cases "j = k") (auto split: option.splits phase.splits)
  next
    case (PatchDone j)
    with assms upd [of j] show ?thesis
      by (cases "j = k") (auto split: option.splits phase.splits)
  next
    case (Rejected j x)
    with assms upd [of j] show ?thesis
      by (cases "j = k") (auto split: option.splits phase.splits)
  qed
qed

lemma done_run:
  assumes "waiting n k = Some p" "\<not> pending p"
  shows "waiting (run evs n) k = Some p"
  using assms(1)
proof (induction evs arbitrary: n)
  case Nil
  then show ?case by (simp add: run_def)
next
  case (Cons e es)
  from Cons.IH [OF done_step [OF Cons.prems assms(2), of e]] show ?case
    by (simp add: run_Cons del: step.simps)
qed




lemma example_created: "WebRtcClient_new example_config ''https://example.org/'' = Inr example_client"
  by (simp add: WebRtcClient_new_def example_config_def example_client_def)

lemmas example_defs =
  example_client_def example_candidate_def example_response_def example_answer_def
  example_session_def example_offer_def example_trace_def example_later_def
  example_returned_def example_failure_def example_retry_def created_def run_def

lemmas method_defs =
  handleIceCandidateFromClient_def sendCandidate_def sendOffer_request_def
  sendOffer_response_def sendOffer_answer_def flush_next_def receiveIceServers_def
  onResponseError_def waiting_def resume_def

lemma example_client_fields:
  "sessionUrl example_client = None"
  "cachedCandidates example_client = []"
  "fetched example_client = []"
  "iceServers example_client = []"
  "dispatched example_client = []"
  "remoteDescription example_client = None"
  by (simp_all add: example_client_def)

lemma example_response_fields:
  "ok (example_response a b c) = a"
  "link (example_response a b c) = b"
  "location (example_response a b c) = c"
  by (simp_all add: example_response_def)

lemma example_run:
  "run example_trace (created example_client) =
     \<lparr> client = example_client
         \<lparr> sessionUrl := Some example_session,
           localDescription := Some ''v=0'',
           remoteDescription := Some ''v=0'',
           fetched :=
             [\<lparr> target = Resolved ''whip'' (Href ''https://example.org/''),
                httpMethod = ''POST'', contentType = ''application/sdp'', body = ''v=0'' \<rparr>,
              trickle_request example_session (example_candidate ''candidate:2''),
              trickle_request example_session (example_candidate ''candidate:1'')] \<rparr>,
       calls = [Negotiated] \<rparr>"
  by (simp add: example_defs method_defs)

lemma example_queued:
  "queued (created example_client) example_trace = [example_candidate ''candidate:1'']"
  by (simp add: example_defs method_defs)

lemma example_direct:
  "direct (created example_client) example_trace = [example_candidate ''candidate:2'']"
  by (simp add: example_defs method_defs)

lemma example_offer_run:
  "run example_offer (created example_client) =
     \<lparr> client = example_client
         \<lparr> cachedCandidates := [example_candidate ''candidate:1''],
           localDescription := Some ''v=0'',
           fetched :=
             [\<lparr> target = Resolved ''whip'' (Href ''https://example.org/''),
                httpMethod = ''POST'', contentType = ''application/sdp'', body = ''v=0'' \<rparr>] \<rparr>,
       calls = [AwaitingResponse] \<rparr>"
  by (simp add: example_defs method_defs)

lemma example_offer_queued:
  "queued (created example_client) example_offer = [example_candidate ''candidate:1'']"
  by (simp add: example_defs method_defs)

lemma example_offer_direct: "direct (created example_client) example_offer = []"
  by (simp add: example_defs method_defs)

lemma example_offer_calls: "calls (run example_offer (created example_client)) = [AwaitingResponse]"
  by (simp add: example_offer_run)


lemma example_link_parse:
  "parse_link example_link =
     [\<lparr> urls = [''turn:example.com''], username = Some ''u'', credential = Some ''p'',
        credentialType = None \<rparr>]"
  unfolding example_link_def by code_simp

lemma awaiting_early:
  assumes "WebRtcClient_new config href = Inr c0" "calls (run evs (created c0)) = [AwaitingResponse]"
  shows "early (queued (created c0) evs) (direct (created c0) evs) (run evs (created c0))"
  using reachable_inv [OF assms(1), of evs] assms(2)
  by (simp add: session_inv_def phase_inv_def)

subsection \<open>Queueing and flushing candidates\<close>




text \<open>
  Claim C2, as stated, fails. In the example run the first candidate is in the queue when
  the answer arrives and \<^verbatim>\<open>sessionUrl\<close> is set (line 72). \<^verbatim>\<open>sendOffer\<close> then waits for
  \<^verbatim>\<open>response.text()\<close> and \<^verbatim>\<open>setRemoteDescription\<close> before it calls
  \<^verbatim>\<open>sendCachedCandidates\<close> (line 85); the second candidate is discovered in between and is
  relayed at once, ahead of the first, which is still in the queue.
\<close>

theorem flush_not_synchronous:
  "sessionUrl (client (run (example_offer @ [PostResponse 0 example_answer])
       (created example_client))) = Some example_session \<and>
   cachedCandidates (client (run (example_offer @ [PostResponse 0 example_answer])
       (created example_client))) = [example_candidate ''candidate:1''] \<and>
   relayed (run (example_offer @ [PostResponse 0 example_answer]) (created example_client)) = [] \<and>
   cachedCandidates (client (step (IceCandidate (Some (example_candidate ''candidate:2'')))
       (run (example_offer @ [PostResponse 0 example_answer]) (created example_client)))) =
     [example_candidate ''candidate:1''] \<and>
   relayed (step (IceCandidate (Some (example_candidate ''candidate:2'')))
       (run (example_offer @ [PostResponse 0 example_answer]) (created example_client))) =
     [trickle_request example_session (example_candidate ''candidate:2'')] \<and>
   relayed (run example_trace (created example_client)) =
     [trickle_request example_session (example_candidate ''candidate:2''),
      trickle_request example_session (example_candidate ''candidate:1'')] \<and>
   trickle_request example_session (example_candidate ''candidate:2'') \<noteq>
     trickle_request example_session (example_candidate ''candidate:1'')"
  by (simp add: example_defs method_defs relayed_def trickle_request_def)

text \<open>
  Claim C2, amended. At every moment of every run with one offer/answer exchange
  (\<^verbatim>\<open>sendOffer\<close> called at most once): while \<^verbatim>\<open>sessionUrl\<close> is unset nothing has been
  relayed and every candidate discovered is in the queue; once it is set, the PATCH
  requests made so far are an interleaving of the first \<open>k\<close> queued candidates with all
  candidates discovered since, each of the two lists in its order of arrival and each
  candidate once; the queued candidates not yet relayed are still in the queue, and
  when the flush has finished all of them have been relayed. So no candidate is dropped
  or duplicated and neither list is reordered, but a candidate discovered after
  \<^verbatim>\<open>sessionUrl\<close> is set may be relayed ahead of candidates still in the queue.
\<close>

theorem candidates_interleave:
  assumes new: "WebRtcClient_new config href = Inr c0"
      and n: "n = run evs (created c0)"
      and once: "length (calls n) \<le> 1"
  shows "(sessionUrl (client n) = None \<longrightarrow>
            relayed n = [] \<and> direct (created c0) evs = [] \<and>
            cachedCandidates (client n) = queued (created c0) evs)
       \<and> (\<forall>u. sessionUrl (client n) = Some u \<longrightarrow>
            (\<exists>k. k \<le> length (queued (created c0) evs) \<and>
                 relayed n \<in> shuffles (map (trickle_request u) (take k (queued (created c0) evs)))
                                      (map (trickle_request u) (direct (created c0) evs)) \<and>
                 (calls n = [Negotiated] \<longrightarrow>
                    k = length (queued (created c0) evs) \<and> cachedCandidates (client n) = []) \<and>
                 (calls n \<noteq> [Negotiated] \<longrightarrow>
                    cachedCandidates (client n) = queued (created c0) evs)))"
proof -
  note inv = reachable_inv [OF new, of evs, folded n]
  show ?thesis
  proof (cases n rule: calls_cases)
    case none
    with inv show ?thesis by (simp add: session_inv_def early_def)
  next
    case (one p)
    with inv show ?thesis
      by (cases p) (auto simp: session_inv_def phase_inv_def early_def flushed_upto_def)
  next
    case more
    with once show ?thesis by simp
  qed
qed

theorem candidates_interleave_witness:
  "WebRtcClient_new example_config ''https://example.org/'' = Inr example_client \<and>
   length (calls (run example_offer (created example_client))) \<le> 1 \<and>
   sessionUrl (client (run example_offer (created example_client))) = None \<and>
   relayed (run example_offer (created example_client)) = [] \<and>
   cachedCandidates (client (run example_offer (created example_client))) =
     [example_candidate ''candidate:1''] \<and>
   length (calls (run example_trace (created example_client))) \<le> 1 \<and>
   sessionUrl (client (run example_trace (created example_client))) = Some example_session \<and>
   calls (run example_trace (created example_client)) = [Negotiated] \<and>
   relayed (run example_trace (created example_client)) \<in>
     shuffles [trickle_request example_session (example_candidate ''candidate:1'')]
              [trickle_request example_session (example_candidate ''candidate:2'')]"
proof -
  have o: "length (calls (run example_offer (created example_client))) \<le> 1"
    and t: "length (calls (run example_trace (created example_client))) \<le> 1"
    by (simp_all add: example_offer_run example_run)
  note a = candidates_interleave [OF example_created refl o]
  note b = candidates_interleave [OF example_created refl t]
  have 1: "sessionUrl (client (run example_offer (created example_client))) = None"
    by (simp add: example_offer_run example_client_fields)
  with a have 2: "relayed (run example_offer (created example_client)) = []"
    and 3: "cachedCandidates (client (run example_offer (created example_client))) =
      queued (created example_client) example_offer"
    by auto
  have 4: "sessionUrl (client (run example_trace (created example_client))) = Some example_session"
    and 5: "calls (run example_trace (created example_client)) = [Negotiated]"
    by (simp_all add: example_run)
  from b 4 5 have 6: "relayed (run example_trace (created example_client)) \<in>
     shuffles (map (trickle_request example_session) (queued (created example_client) example_trace))
              (map (trickle_request example_session) (direct (created example_client) example_trace))"
    by auto
  from example_created o t 1 2 3 4 5 6 show ?thesis
    by (simp add: example_queued example_direct example_offer_queued)
qed

subsection \<open>Failures of the offer\<close>




text \<open>
  Claim C4. When the POST is answered by a response that is not successful,
  \<^verbatim>\<open>sendOffer\<close> dispatches one \<^verbatim>\<open>responseerror\<close> event whose detail is the response and
  returns (\<open>Stopped\<close>, not \<open>Thrown\<close>). For the first call of a client \<^verbatim>\<open>sessionUrl\<close> and the
  remote description are unset then, and nothing changes afterwards, apart from
  candidates being queued, unless \<^verbatim>\<open>sendOffer\<close> is called again: \<^verbatim>\<open>sessionUrl\<close> and the
  remote description stay unset, the relay servers stay as they were, and no further
  request is made. And for any call \<open>k\<close> in any state \<open>m\<close>, whatever other calls were made,
  the response changes nothing but the dispatched events and the phase of that call.
\<close>

theorem response_error_stops:
  assumes new: "WebRtcClient_new config href = Inr c0"
      and n: "n = run evs (created c0)"
      and awaiting: "calls n = [AwaitingResponse]"
      and r: "\<not> ok r"
  shows "step (PostResponse 0 r) n =
           \<lparr> client = (client n)\<lparr> dispatched := dispatched (client n) @ [r] \<rparr>,
             calls = [Stopped] \<rparr>
       \<and> sessionUrl (client n) = None
       \<and> remoteDescription (client n) = None
       \<and> (\<forall>evs'. (\<forall>e \<in> set evs'. \<not> is_call e) \<longrightarrow>
            run evs' (step (PostResponse 0 r) n) =
              \<lparr> client = (client n)
                  \<lparr> dispatched := dispatched (client n) @ [r],
                    cachedCandidates :=
                      cachedCandidates (client n) @ queued (step (PostResponse 0 r) n) evs' \<rparr>,
                calls = [Stopped] \<rparr>)
       \<and> (\<forall>m k. waiting m k = Some AwaitingResponse \<longrightarrow>
            step (PostResponse k r) m =
              \<lparr> client = (client m)\<lparr> dispatched := dispatched (client m) @ [r] \<rparr>,
                calls = (calls m)[k := Stopped] \<rparr>)"
proof -
  let ?m = "step (PostResponse 0 r) n"
  from awaiting_early [OF new] awaiting n
  have e: "early (queued (created c0) evs) (direct (created c0) evs) n"
    by simp
  have m: "?m = \<lparr> client = (client n)\<lparr> dispatched := dispatched (client n) @ [r] \<rparr>,
                  calls = [Stopped] \<rparr>"
    using awaiting r
    by (simp add: waiting_def resume_def sendOffer_response_def onResponseError_def)
  have "run evs' ?m =
          ?m\<lparr> client := (client ?m)\<lparr> cachedCandidates :=
                  cachedCandidates (client ?m) @ queued ?m evs' \<rparr> \<rparr>"
    if "\<forall>e \<in> set evs'. \<not> is_call e" for evs'
    using that e by (intro halted_run) (simp_all add: m early_def del: step.simps)
  moreover have "step (PostResponse k r) m =
      \<lparr> client = (client m)\<lparr> dispatched := dispatched (client m) @ [r] \<rparr>,
        calls = (calls m)[k := Stopped] \<rparr>" if "waiting m k = Some AwaitingResponse" for m k
    using that r by (simp add: resume_def sendOffer_response_def onResponseError_def)
  ultimately show ?thesis
    using e by (simp add: m early_def del: step.simps)
qed

theorem response_error_stops_witness:
  "WebRtcClient_new example_config ''https://example.org/'' = Inr example_client \<and>
   calls (run example_offer (created example_client)) = [AwaitingResponse] \<and>
   \<not> ok (example_response False None (Some ''/session/abc123'')) \<and>
   filter is_call example_later = [] \<and>
   step (PostResponse 0 (example_response False None (Some ''/session/abc123'')))
       (run example_offer (created example_client)) =
     \<lparr> client = (client (run example_offer (created example_client)))
         \<lparr> dispatched := [example_response False None (Some ''/session/abc123'')] \<rparr>,
       calls = [Stopped] \<rparr> \<and>
   calls (run example_later
       (step (PostResponse 0 (example_response False None (Some ''/session/abc123'')))
         (run example_offer (created example_client)))) = [Stopped] \<and>
   sessionUrl (client (run example_later
       (step (PostResponse 0 (example_response False None (Some ''/session/abc123'')))
         (run example_offer (created example_client))))) = None"
proof -
  let ?r = "example_response False None (Some ''/session/abc123'')"
  let ?n = "run example_offer (created example_client)"
  have r: "\<not> ok ?r" by (simp add: example_response_fields)
  have q: "\<forall>e \<in> set example_later. \<not> is_call e"
    by (simp add: example_later_def)
  note t = response_error_stops [OF example_created refl example_offer_calls r]
  have d: "dispatched (client ?n) = []"
    by (simp add: example_offer_run example_client_fields)
  have n: "sessionUrl (client ?n) = None"
    by (simp add: example_offer_run example_client_fields)
  from t have 1: "step (PostResponse 0 ?r) ?n =
      \<lparr> client = (client ?n)\<lparr> dispatched := [?r] \<rparr>, calls = [Stopped] \<rparr>"
    by (simp add: d)
  from t q have 2: "run example_later (step (PostResponse 0 ?r) ?n) =
      \<lparr> client = (client ?n)
          \<lparr> dispatched := dispatched (client ?n) @ [?r],
            cachedCandidates :=
              cachedCandidates (client ?n) @ queued (step (PostResponse 0 ?r) ?n) example_later \<rparr>,
        calls = [Stopped] \<rparr>"
    by blast
  have "calls (run example_later (step (PostResponse 0 ?r) ?n)) = [Stopped]"
    "sessionUrl (client (run example_later (step (PostResponse 0 ?r) ?n))) = None"
    by (simp_all add: 2 n del: step.simps)
  moreover have "filter is_call example_later = []"
    by (simp add: example_later_def)
  ultimately show ?thesis
    using r 1 by (simp only: example_created example_offer_calls simp_thms)
qed

text \<open>
  Claim C9. In any state, for any call \<open>k\<close> of \<^verbatim>\<open>sendOffer\<close> that waits for its response:
  when the response is successful, has a \<^verbatim>\<open>Link\<close> header that parses to a non-empty
  list and no \<^verbatim>\<open>Location\<close>, and the peer connection reports no relay server,
  \<^verbatim>\<open>receiveIceServers\<close> installs the parsed list before \<^verbatim>\<open>sendOffer\<close> throws; the call
  stays thrown and the list stays installed whatever happens afterwards, further calls
  of \<^verbatim>\<open>sendOffer\<close> included.
\<close>

theorem relay_servers_survive_missing_location:
  assumes awaiting: "waiting n k = Some AwaitingResponse"
      and r: "ok r" "location r = None"
      and l: "link r = Some h" "parse_link h \<noteq> []"
      and none: "iceServers (client n) = []"
  shows "receiveIceServers r (client n) = (client n)\<lparr> iceServers := parse_link h \<rparr>
       \<and> sendOffer_response r (client n) =
           (Thrown (Error ''Session not provided in Location header''),
            (client n)\<lparr> iceServers := parse_link h \<rparr>)
       \<and> (\<forall>evs'.
            waiting (run evs' (step (PostResponse k r) n)) k =
              Some (Thrown (Error ''Session not provided in Location header'')) \<and>
            iceServers (client (run evs' (step (PostResponse k r) n))) = parse_link h)"
proof -
  let ?m = "step (PostResponse k r) n"
  let ?x = "Error ''Session not provided in Location header''"
  have h: "h \<noteq> []" using l(2) by (auto simp: parse_link_Nil)
  have i: "receiveIceServers r (client n) = (client n)\<lparr> iceServers := parse_link h \<rparr>"
    using l none h by (simp add: receiveIceServers_def)
  have s: "sendOffer_response r (client n) = (Thrown ?x, (client n)\<lparr> iceServers := parse_link h \<rparr>)"
    using r i by (simp add: sendOffer_response_def)
  from awaiting have k: "k < length (calls n)"
    by (simp add: waiting_def split: if_splits)
  have m: "waiting ?m k = Some (Thrown ?x)" "iceServers (client ?m) = parse_link h"
    using awaiting k by (simp_all add: s resume_def waiting_def)
  have "waiting (run evs' ?m) k = Some (Thrown ?x)" for evs'
    by (rule done_run [OF m(1)]) simp
  moreover have "iceServers (client (run evs' ?m)) = parse_link h" for evs'
    using iceServers_run [of ?m evs'] m(2) l(2) by (simp del: step.simps)
  ultimately show ?thesis
    using i s by (simp del: step.simps)
qed

theorem relay_servers_survive_missing_location_witness:
  "waiting (run example_offer (created example_client)) 0 = Some AwaitingResponse \<and>
   ok (example_response True (Some example_link) None) \<and>
   location (example_response True (Some example_link) None) = None \<and>
   link (example_response True (Some example_link) None) = Some example_link \<and>
   parse_link example_link \<noteq> [] \<and>
   iceServers (client (run example_offer (created example_client))) = [] \<and>
   waiting (run (example_later @ example_retry)
       (step (PostResponse 0 (example_response True (Some example_link) None))
         (run example_offer (created example_client)))) 0 =
     Some (Thrown (Error ''Session not provided in Location header'')) \<and>
   iceServers (client (run (example_later @ example_retry)
       (step (PostResponse 0 (example_response True (Some example_link) None))
         (run example_offer (created example_client))))) =
     [\<lparr> urls = [''turn:example.com''], username = Some ''u'', credential = Some ''p'',
        credentialType = None \<rparr>]"
proof -
  let ?r = "example_response True (Some example_link) None"
  let ?n = "run example_offer (created example_client)"
  have w: "waiting ?n 0 = Some AwaitingResponse"
    by (simp add: example_offer_run waiting_def)
  have r: "ok ?r" "location ?r = None" "link ?r = Some example_link"
    by (simp_all add: example_response_fields)
  have p: "parse_link example_link \<noteq> []" by (simp add: example_link_parse)
  have i: "iceServers (client ?n) = []"
    by (simp add: example_offer_run example_client_fields)
  note t = relay_servers_survive_missing_location [OF w r(1) r(2) r(3) p i]
  from t have "waiting (run (example_later @ example_retry) (step (PostResponse 0 ?r) ?n)) 0 =
      Some (Thrown (Error ''Session not provided in Location header''))"
    "iceServers (client (run (example_later @ example_retry) (step (PostResponse 0 ?r) ?n))) =
      parse_link example_link"
    by blast+
  with w r p i show ?thesis
    by (simp only: example_link_parse simp_thms)
qed

subsection \<open>Pairing tracks\<close>

lemma handlers_equal: "DuplexClient_handleGotTrack = WhepClient_handleGotTrack"
  by (intro ext) (simp add: DuplexClient_handleGotTrack_def WhepClient_handleGotTrack_def)

lemma pair_turn_fields [simp]:
  "outputVideoTracks (pair_turn a i this) = outputVideoTracks this"
  "outputAudioTrack (pair_turn a i this) = outputAudioTrack this"
  by (simp_all add: pair_turn_def Let_def split: option.splits)

lemma pair_from_step:
  "i < length (outputVideoTracks this) \<Longrightarrow> pair_from a i this = pair_from a (Suc i) (pair_turn a i this)"
  by (subst pair_from.simps) simp

lemma pair_from_end:
  "\<not> i < length (outputVideoTracks this) \<Longrightarrow> pair_from a i this = this"
  by (subst pair_from.simps) simp

lemma pair_from_no_container:
  assumes "container this = None" "videoElements this = []" "i \<le> length (outputVideoTracks this)"
  shows "pair_from a i this =
           this\<lparr> constructed := constructed this @
                   map (grouping a (outputVideoTracks this)) [i..<length (outputVideoTracks this)] \<rparr>"
  using assms
proof (induction "length (outputVideoTracks this) - i" arbitrary: i this)
  case 0
  then show ?case by (simp add: pair_from_end)
next
  case (Suc d)
  then have lt: "i < length (outputVideoTracks this)" by simp
  let ?t = "pair_turn a i this"
  have t: "?t = this\<lparr> constructed := constructed this @ [grouping a (outputVideoTracks this) i] \<rparr>"
    using Suc.prems by (simp add: pair_turn_def grouping_def)
  have "pair_from a (Suc i) ?t =
          ?t\<lparr> constructed := constructed ?t @
                  map (grouping a (outputVideoTracks ?t)) [Suc i..<length (outputVideoTracks ?t)] \<rparr>"
    using Suc.hyps(2) Suc.prems lt by (intro Suc.hyps(1)) (simp_all add: t)
  then show ?case
    using lt by (simp add: pair_from_step t upt_conv_Cons)
qed

lemma pair_from_skip:
  assumes "i \<le> length (videoElements this)" "length (videoElements this) \<le> length (outputVideoTracks this)"
  shows "pair_from a i this = pair_from a (length (videoElements this)) this"
  using assms
proof (induction "length (videoElements this) - i" arbitrary: i)
  case 0
  then show ?case by simp
next
  case (Suc d)
  then have "i < length (videoElements this)" by simp
  then have "pair_turn a i this = this" by (simp add: pair_turn_def)
  with Suc show ?case by (simp add: pair_from_step)
qed

lemma pair_from_container:
  assumes "container this = Some ch" "i = length (videoElements this)"
    "i \<le> length (outputVideoTracks this)"
  shows "pair_from a i this =
           this\<lparr> constructed := constructed this @
                   map (grouping a (outputVideoTracks this)) [i..<length (outputVideoTracks this)],
                 videoElements := videoElements this @
                   map (\<lambda>j. player (grouping a (outputVideoTracks this) j))
                     [i..<length (outputVideoTracks this)],
                 container := Some (ch @
                   map (\<lambda>j. player (grouping a (outputVideoTracks this) j))
                     [i..<length (outputVideoTracks this)]) \<rparr>"
  using assms
proof (induction "length (outputVideoTracks this) - i" arbitrary: i this ch)
  case 0
  then show ?case by (simp add: pair_from_end)
next
  case (Suc d)
  then have lt: "i < length (outputVideoTracks this)" by simp
  let ?g = "grouping a (outputVideoTracks this) i"
  let ?t = "pair_turn a i this"
  have t: "?t = this\<lparr> constructed := constructed this @ [?g],
                        videoElements := videoElements this @ [player ?g],
                        container := Some (ch @ [player ?g]) \<rparr>"
    using Suc.prems by (simp add: pair_turn_def grouping_def player_def createPlayerElement_def Let_def)
  have "pair_from a (Suc i) ?t =
          ?t\<lparr> constructed := constructed ?t @
                   map (grouping a (outputVideoTracks ?t)) [Suc i..<length (outputVideoTracks ?t)],
                videoElements := videoElements ?t @
                   map (\<lambda>j. player (grouping a (outputVideoTracks ?t) j))
                     [Suc i..<length (outputVideoTracks ?t)],
                container := Some ((ch @ [player ?g]) @
                   map (\<lambda>j. player (grouping a (outputVideoTracks ?t) j))
                     [Suc i..<length (outputVideoTracks ?t)]) \<rparr>"
  proof (rule Suc.hyps(1))
    show "d = length (outputVideoTracks ?t) - Suc i" using Suc.hyps(2) by simp
    show "container ?t = Some (ch @ [player ?g])" by (simp add: t)
    have "length (videoElements ?t) = Suc (length (videoElements this))" by (simp add: t)
    with Suc.prems(2) show "Suc i = length (videoElements ?t)" by simp
    show "Suc i \<le> length (outputVideoTracks ?t)" using lt by simp
  qed
  then show ?case
    using lt by (simp add: pair_from_step t upt_conv_Cons)
qed


lemma record_track_fields [simp]:
  "container (record_track ev this) = container this"
  "videoElements (record_track ev this) = videoElements this"
  "constructed (record_track ev this) = constructed this"
  by (simp_all add: record_track_def Let_def)

lemma record_track_video:
  "outputVideoTracks (record_track ev this) =
     (if kind (track ev) = Video \<and> streams ev \<noteq> []
      then outputVideoTracks this @ [track ev] else outputVideoTracks this)"
  by (simp add: record_track_def Let_def)

lemma record_track_audio:
  "outputAudioTrack (record_track ev this) =
     (if kind (track ev) = Audio then Some (track ev) else outputAudioTrack this)"
  by (simp add: record_track_def Let_def)

lemma pair_tracks_no_container:
  assumes "container this = None" "videoElements this = []"
  shows "pair_tracks this =
           (case outputAudioTrack this of
              None \<Rightarrow> this
            | Some a \<Rightarrow>
                this\<lparr> constructed := constructed this @
                        map (grouping a (outputVideoTracks this))
                          [0..<length (outputVideoTracks this)] \<rparr>)"
  using assms by (simp add: pair_tracks_def pair_from_no_container split: option.splits)

lemma pair_from_video [simp]:
  "outputVideoTracks (pair_from a i this) = outputVideoTracks this"
proof (induction a i this rule: pair_from.induct)
  case (1 a i this)
  show ?case by (subst pair_from.simps) (use 1 in simp)
qed

lemma pair_from_audio [simp]:
  "outputAudioTrack (pair_from a i this) = outputAudioTrack this"
proof (induction a i this rule: pair_from.induct)
  case (1 a i this)
  show ?case by (subst pair_from.simps) (use 1 in simp)
qed

lemma pair_tracks_fields [simp]:
  "outputVideoTracks (pair_tracks this) = outputVideoTracks this"
  "outputAudioTrack (pair_tracks this) = outputAudioTrack this"
  by (simp_all add: pair_tracks_def split: option.splits)

lemma deliver_snoc: "deliver h (evs @ [ev]) this = h ev (deliver h evs this)"
  by (simp add: deliver_def)

lemma deliver_no_container:
  "container (deliver WhepClient_handleGotTrack evs (new_pairer None)) = None \<and>
   videoElements (deliver WhepClient_handleGotTrack evs (new_pairer None)) = []"
proof (induction evs rule: rev_induct)
  case Nil
  then show ?case by (simp add: deliver_def new_pairer_def)
next
  case (snoc ev evs)
  then show ?case
    by (simp add: deliver_snoc WhepClient_handleGotTrack_def pair_tracks_no_container
             split: option.splits)
qed

lemma take_nth_upt:
  "k \<le> length vs \<Longrightarrow> take k vs @ map ((!) vs) [k..<length vs] = vs"
  by (auto simp: list_eq_iff_nth_eq nth_append)

lemma last_grouping: "last (grouping a vs i) = vs ! i"
  by (simp add: grouping_def)

lemma srcObject_player: "srcObject (player g) = g"
  by (simp add: player_def)

lemma pair_tracks_container:
  assumes "container this = Some ch" "length (videoElements this) \<le> length (outputVideoTracks this)"
    "outputAudioTrack this = Some a"
  shows "pair_tracks this =
      this\<lparr> constructed := constructed this @
              map (grouping a (outputVideoTracks this))
                [length (videoElements this)..<length (outputVideoTracks this)],
            videoElements := videoElements this @
              map (\<lambda>j. player (grouping a (outputVideoTracks this) j))
                [length (videoElements this)..<length (outputVideoTracks this)],
            container := Some (ch @
              map (\<lambda>j. player (grouping a (outputVideoTracks this) j))
                [length (videoElements this)..<length (outputVideoTracks this)]) \<rparr>"
proof (cases "length (videoElements this) < length (outputVideoTracks this)")
  case True
  let ?k = "length (videoElements this)"
  have "pair_from a 0 this = pair_from a ?k this"
    using True by (intro pair_from_skip) simp_all
  with True assms(3) pair_from_container [OF assms(1) refl assms(2), of a] show ?thesis
    by (simp add: pair_tracks_def)
next
  case False
  with assms show ?thesis by (simp add: pair_tracks_def)
qed

lemma pair_tracks_paired_once:
  assumes "container this \<noteq> None"
    "map srcObject (videoElements this) = constructed this"
    "length (constructed this) \<le> length (outputVideoTracks this)"
    "map last (constructed this) = take (length (constructed this)) (outputVideoTracks this)"
    "outputAudioTrack this = None \<longrightarrow> constructed this = []"
  shows "paired_once (pair_tracks this)"
proof (cases "outputAudioTrack this")
  case None
  with assms show ?thesis by (simp add: pair_tracks_def paired_once_def)
next
  case (Some a)
  from assms(1) obtain ch where ch: "container this = Some ch" by auto
  have k: "length (videoElements this) = length (constructed this)"
    using assms(2) by (auto dest: arg_cong [where f = length])
  show ?thesis
    using assms Some k take_nth_upt [of "length (constructed this)" "outputVideoTracks this"]
    by (simp add: pair_tracks_container [OF ch _ Some] paired_once_def comp_def last_grouping
          srcObject_player)
qed

lemma handle_paired_once:
  assumes "paired_once this"
  shows "paired_once (WhepClient_handleGotTrack ev this)"
  unfolding WhepClient_handleGotTrack_def
  using assms
  by (intro pair_tracks_paired_once)
     (auto simp: paired_once_def record_track_video record_track_audio)

lemma deliver_paired_once:
  "paired_once (deliver WhepClient_handleGotTrack evs (new_pairer (Some ch)))"
proof (induction evs rule: rev_induct)
  case Nil
  then show ?case by (simp add: deliver_def new_pairer_def paired_once_def)
next
  case (snoc ev evs)
  then show ?case by (simp add: deliver_snoc handle_paired_once)
qed


lemmas pairing_defs =
  deliver_def WhepClient_handleGotTrack_def record_track_def pair_tracks_def pair_turn_def
  createPlayerElement_def new_pairer_def Let_def pair_from_step pair_from_end

text \<open>
  Claim C7, amended: it holds for a client that has a container element. For both
  \<^verbatim>\<open>WhepClient\<close> and \<^verbatim>\<open>DuplexClient\<close>, with a container and the tracks arriving in the order
  video1, video2, audio, video3, each video with at least one stream: nothing is paired
  before the audio track arrives; when it arrives two streams are constructed, audio
  with video1 and video2 alone, and each is given to one new player appended to the
  container; when video3 arrives one more stream, video3 alone, and one more player;
  the two earlier players and streams are left as they are.
\<close>

theorem pairing_with_container:
  assumes h: "h = WhepClient_handleGotTrack \<or> h = DuplexClient_handleGotTrack"
      and kinds: "kind v1 = Video" "kind v2 = Video" "kind v3 = Video" "kind a = Audio"
      and live: "s1 \<noteq> []" "s2 \<noteq> []" "s3 \<noteq> []"
  shows "deliver h [\<lparr> track = v1, streams = s1 \<rparr>, \<lparr> track = v2, streams = s2 \<rparr>]
             (new_pairer (Some ch)) =
           \<lparr> outputVideoTracks = [v1, v2], outputAudioTrack = None, videoElements = [],
             container = Some ch, constructed = [] \<rparr>
       \<and> deliver h [\<lparr> track = v1, streams = s1 \<rparr>, \<lparr> track = v2, streams = s2 \<rparr>,
                     \<lparr> track = a, streams = sa \<rparr>]
             (new_pairer (Some ch)) =
           \<lparr> outputVideoTracks = [v1, v2], outputAudioTrack = Some a,
             videoElements = [player [a, v1], player [v2]],
             container = Some (ch @ [player [a, v1], player [v2]]),
             constructed = [[a, v1], [v2]] \<rparr>
       \<and> deliver h [\<lparr> track = v1, streams = s1 \<rparr>, \<lparr> track = v2, streams = s2 \<rparr>,
                     \<lparr> track = a, streams = sa \<rparr>, \<lparr> track = v3, streams = s3 \<rparr>]
             (new_pairer (Some ch)) =
           \<lparr> outputVideoTracks = [v1, v2, v3], outputAudioTrack = Some a,
             videoElements = [player [a, v1], player [v2], player [v3]],
             container = Some (ch @ [player [a, v1], player [v2], player [v3]]),
             constructed = [[a, v1], [v2], [v3]] \<rparr>"
proof -
  from h have h': "h = WhepClient_handleGotTrack" by (auto simp: handlers_equal)
  show ?thesis
    unfolding h' using kinds live by (simp add: pairing_defs player_def)
qed

theorem pairing_with_container_witness:
  "kind (Track Video ''video1'') = Video \<and> kind (Track Audio ''audio'') = Audio \<and>
   [[Track Video ''video1'']] \<noteq> [] \<and>
   deliver DuplexClient_handleGotTrack
       [example_video ''video1'', example_video ''video2'', example_audio, example_video ''video3'']
       (new_pairer (Some [])) =
     \<lparr> outputVideoTracks = [Track Video ''video1'', Track Video ''video2'', Track Video ''video3''],
       outputAudioTrack = Some (Track Audio ''audio''),
       videoElements =
         [player [Track Audio ''audio'', Track Video ''video1''],
          player [Track Video ''video2''], player [Track Video ''video3'']],
       container = Some
         [player [Track Audio ''audio'', Track Video ''video1''],
          player [Track Video ''video2''], player [Track Video ''video3'']],
       constructed =
         [[Track Audio ''audio'', Track Video ''video1''], [Track Video ''video2''],
          [Track Video ''video3'']] \<rparr>"
  using pairing_with_container
    [of DuplexClient_handleGotTrack "Track Video ''video1''" "Track Video ''video2''"
        "Track Video ''video3''" "Track Audio ''audio''"
        "[[Track Video ''video1'']]" "[[Track Video ''video2'']]" "[[Track Video ''video3'']]"
        "[]" "[]"]
  by (simp add: example_video_def example_audio_def)

text \<open>
  Claim C7, as stated, fails for a client without a container: when video3 arrives, three
  streams are constructed (audio with video1 and video2 once more, then video3), and no
  stream is ever given to a player.
\<close>

theorem pairing_without_container:
  "deliver WhepClient_handleGotTrack
       [example_video ''video1'', example_video ''video2'', example_audio]
       (new_pairer None) =
     \<lparr> outputVideoTracks = [Track Video ''video1'', Track Video ''video2''],
       outputAudioTrack = Some (Track Audio ''audio''),
       videoElements = [],
       container = None,
       constructed = [[Track Audio ''audio'', Track Video ''video1''], [Track Video ''video2'']] \<rparr>
   \<and> deliver WhepClient_handleGotTrack
       [example_video ''video1'', example_video ''video2'', example_audio, example_video ''video3'']
       (new_pairer None) =
     \<lparr> outputVideoTracks = [Track Video ''video1'', Track Video ''video2'', Track Video ''video3''],
       outputAudioTrack = Some (Track Audio ''audio''),
       videoElements = [],
       container = None,
       constructed =
         [[Track Audio ''audio'', Track Video ''video1''], [Track Video ''video2''],
          [Track Audio ''audio'', Track Video ''video1''], [Track Video ''video2''],
          [Track Video ''video3'']] \<rparr>"
  by (simp add: pairing_defs example_video_def example_audio_def)


text \<open>
  Claim C10. Without a container \<^verbatim>\<open>videoElements\<close> stays empty, so every notification
  after which an audio track is recorded constructs a stream for each recorded video
  track again, the first with the audio track. With a container, after any notifications,
  each stream constructed is shown by one player, the \<open>i\<close>-th stream ends with the \<open>i\<close>-th
  recorded video track, and once an audio track is recorded there is exactly one stream
  per recorded video track.
\<close>

theorem pairing_needs_container:
  assumes h: "h = WhepClient_handleGotTrack \<or> h = DuplexClient_handleGotTrack"
      and before: "this = deliver h evs (new_pairer None)"
      and after: "this' = h ev this"
      and given: "that = deliver h evs (new_pairer (Some ch))"
  shows "videoElements this' = [] \<and> container this' = None
       \<and> (\<forall>a. outputAudioTrack this' = Some a \<longrightarrow>
              constructed this' =
                constructed this @
                  map (grouping a (outputVideoTracks this'))
                    [0..<length (outputVideoTracks this')])
       \<and> map srcObject (videoElements that) = constructed that
       \<and> length (constructed that) \<le> length (outputVideoTracks that)
       \<and> map last (constructed that) = take (length (constructed that)) (outputVideoTracks that)
       \<and> (outputAudioTrack that \<noteq> None \<longrightarrow>
            length (constructed that) = length (outputVideoTracks that))"
proof -
  from h have h': "h = WhepClient_handleGotTrack" by (auto simp: handlers_equal)
  have none: "container this = None" "videoElements this = []"
    using deliver_no_container [of evs] by (simp_all add: before h')
  have "this' = pair_tracks (record_track ev this)"
    by (simp add: after h' WhepClient_handleGotTrack_def)
  then have 1: "videoElements this' = [] \<and> container this' = None
       \<and> (\<forall>a. outputAudioTrack this' = Some a \<longrightarrow>
              constructed this' =
                constructed this @
                  map (grouping a (outputVideoTracks this'))
                    [0..<length (outputVideoTracks this')])"
    using none by (auto simp: pair_tracks_no_container split: option.splits)
  have "paired_once that"
    using deliver_paired_once [of evs ch] by (simp add: given h')
  with 1 show ?thesis by (simp add: paired_once_def)
qed

theorem pairing_needs_container_witness:
  "constructed (deliver WhepClient_handleGotTrack
       [example_video ''video1'', example_video ''video2'', example_audio] (new_pairer None)) =
     [[Track Audio ''audio'', Track Video ''video1''], [Track Video ''video2'']] \<and>
   outputAudioTrack (WhepClient_handleGotTrack (example_video ''video3'')
       (deliver WhepClient_handleGotTrack
         [example_video ''video1'', example_video ''video2'', example_audio] (new_pairer None))) =
     Some (Track Audio ''audio'') \<and>
   constructed (WhepClient_handleGotTrack (example_video ''video3'')
       (deliver WhepClient_handleGotTrack
         [example_video ''video1'', example_video ''video2'', example_audio] (new_pairer None))) =
     [[Track Audio ''audio'', Track Video ''video1''], [Track Video ''video2''],
      [Track Audio ''audio'', Track Video ''video1''], [Track Video ''video2''],
      [Track Video ''video3'']] \<and>
   outputAudioTrack (deliver WhepClient_handleGotTrack
       [example_video ''video1'', example_video ''video2'', example_audio]
       (new_pairer (Some []))) \<noteq> None \<and>
   length (constructed (deliver WhepClient_handleGotTrack
       [example_video ''video1'', example_video ''video2'', example_audio]
       (new_pairer (Some [])))) = 2"
proof -
  let ?evs = "[example_video ''video1'', example_video ''video2'', example_audio]"
  let ?before = "deliver WhepClient_handleGotTrack ?evs (new_pairer None)"
  let ?after = "WhepClient_handleGotTrack (example_video ''video3'') ?before"
  let ?given = "deliver WhepClient_handleGotTrack ?evs (new_pairer (Some []))"
  note t = pairing_needs_container
    [of WhepClient_handleGotTrack ?before ?evs ?after "example_video ''video3''" ?given "[]",
     OF _ refl refl refl]
  have v: "constructed ?before =
      [[Track Audio ''audio'', Track Video ''video1''], [Track Video ''video2'']]"
    "outputAudioTrack ?after = Some (Track Audio ''audio'')"
    "outputVideoTracks ?after =
      [Track Video ''video1'', Track Video ''video2'', Track Video ''video3'']"
    "outputAudioTrack ?given \<noteq> None"
    "outputVideoTracks ?given = [Track Video ''video1'', Track Video ''video2'']"
    by (simp_all add: pairing_defs example_video_def example_audio_def)
  from t v(2) have "constructed ?after =
      constructed ?before @
        map (grouping (Track Audio ''audio'') (outputVideoTracks ?after))
          [0..<length (outputVideoTracks ?after)]"
    by blast
  then have 1: "constructed ?after =
     [[Track Audio ''audio'', Track Video ''video1''], [Track Video ''video2''],
      [Track Audio ''audio'', Track Video ''video1''], [Track Video ''video2''],
      [Track Video ''video3'']]"
    by (simp add: v grouping_def)
  from t v(4) have "length (constructed ?given) = length (outputVideoTracks ?given)"
    by blast
  then have 2: "length (constructed ?given) = 2" by (simp add: v)
  from v 1 2 show ?thesis by simp
qed


subsection \<open>Starting without local media\<close>

text \<open>
  Claim C8, as stated, fails for \<^verbatim>\<open>DuplexClient\<close>: when \<^verbatim>\<open>getUserMedia\<close> is denied, its
  \<^verbatim>\<open>start\<close> adds the receive-only transceivers, calls \<^verbatim>\<open>sendOffer\<close> and returns
  \<^verbatim>\<open>undefined\<close>, not \<^verbatim>\<open>false\<close>.
\<close>

theorem duplex_start_proceeds:
  "DuplexClient_start Denied example_duplex =
     (Call_sendOffer_return_undefined,
      [''Requesting access to user media'', ''Couldn't get user media''],
      example_duplex\<lparr> transceivers := [(Video, ''recvonly''), (Audio, ''recvonly'')] \<rparr>)
   \<and> fst (DuplexClient_start Denied example_duplex) \<noteq> Return_false"
  by (simp add: DuplexClient_start_def requestAccess_def example_duplex_def)

text \<open>
  Claim C8, amended. When media access is denied or unavailable and no stream was
  acquired before: \<^verbatim>\<open>WhipClient.start\<close> logs \<^verbatim>\<open>Could not access media devices\<close> after the
  messages of \<^verbatim>\<open>requestAccess\<close>, leaves the client as it was (no track attached, no offer
  sent) and returns \<^verbatim>\<open>false\<close>; \<^verbatim>\<open>DuplexClient.start\<close> writes the messages of
  \<^verbatim>\<open>requestAccess\<close> only, adds the receive-only video and audio transceivers, attaches no
  track, calls \<^verbatim>\<open>sendOffer\<close> and returns \<^verbatim>\<open>undefined\<close>. Neither throws.
\<close>

theorem start_without_media:
  assumes "env = NoMediaDevices \<or> env = Denied"
      and "media w = None" "media d = None"
  shows "WhipClient_start env w =
           (Return_false, snd (requestAccess env) @ [''Could not access media devices''], w)
       \<and> DuplexClient_start env d =
           (Call_sendOffer_return_undefined, snd (requestAccess env),
            d\<lparr> transceivers := transceivers d @
                  replicate (simulcastVideoCount d) (Video, ''recvonly'') @
                  [(Audio, ''recvonly'')] \<rparr>)"
proof -
  have a: "fst (requestAccess env) = None"
    using assms(1) by (auto simp: requestAccess_def)
  have "w\<lparr> media := None \<rparr> = w"
    using assms(2) by (cases w) simp
  moreover have "d\<lparr> media := None \<rparr> = d"
    using assms(3) by (cases d) simp
  ultimately show ?thesis
    using assms(2,3) a by (simp add: WhipClient_start_def DuplexClient_start_def)
qed

theorem start_without_media_witness:
  "media example_whip = None \<and> media example_duplex = None \<and>
   WhipClient_start Denied example_whip =
     (Return_false,
      [''Requesting access to user media'', ''Couldn't get user media'',
       ''Could not access media devices''],
      example_whip) \<and>
   DuplexClient_start NoMediaDevices example_duplex =
     (Call_sendOffer_return_undefined,
      [''Can't request user media (insecure context?)''],
      example_duplex\<lparr> transceivers := [(Video, ''recvonly''), (Audio, ''recvonly'')] \<rparr>)"
proof -
  have m: "media example_whip = None" "media example_duplex = None"
    by (simp_all add: example_whip_def example_duplex_def)
  have t: "transceivers example_duplex = []" "simulcastVideoCount example_duplex = 1"
    by (simp_all add: example_duplex_def)
  from start_without_media [of Denied example_whip example_duplex, OF _ m]
  have 1: "WhipClient_start Denied example_whip =
     (Return_false,
      [''Requesting access to user media'', ''Couldn't get user media'',
       ''Could not access media devices''],
      example_whip)"
    by (simp add: requestAccess_def)
  from start_without_media [of NoMediaDevices example_whip example_duplex, OF _ m]
  have 2: "DuplexClient_start NoMediaDevices example_duplex =
     (Call_sendOffer_return_undefined,
      [''Can't request user media (insecure context?)''],
      example_duplex\<lparr> transceivers := [(Video, ''recvonly''), (Audio, ''recvonly'')] \<rparr>)"
    by (simp add: requestAccess_def t)
  from m 1 2 show ?thesis by simp
qed

end
